theory Spec2Isabelle
  imports Complex_Main "HOL-Library.AList"
begin

section \<open>Python values\<close>

text \<open>
  The values that \<^verbatim>\<open>json.load\<close> produces and that the HTTP layer sends: Python's
  \<^verbatim>\<open>None\<close>, \<^verbatim>\<open>bool\<close>, \<^verbatim>\<open>int\<close>, \<^verbatim>\<open>float\<close>, \<^verbatim>\<open>str\<close>, \<^verbatim>\<open>list\<close> and \<^verbatim>\<open>dict\<close>.
  A float is represented by the rational number it denotes (NaN and the infinities are
  left out); a dict is an association list in insertion order, looked up with \<open>map_of\<close>.
\<close>

datatype json =
    JNull
  | JBool bool
  | JInt int
  | JFloat rat
  | JString string
  | JArray "json list"
  | JObject "(string \<times> json) list"

text \<open>The numeric arguments of the colour operations: a Python \<^verbatim>\<open>int\<close> or \<^verbatim>\<open>float\<close>.\<close>

datatype number = IntNum int | FloatNum rat

fun num_value :: "number \<Rightarrow> rat" where
  "num_value (IntNum i) = of_int i"
| "num_value (FloatNum q) = q"

fun json_of_number :: "number \<Rightarrow> json" where
  "json_of_number (IntNum i) = JInt i"
| "json_of_number (FloatNum q) = JFloat q"

section \<open>Exceptions and log messages\<close>

text \<open>
  Every \<^verbatim>\<open>raise\<close> site of the three modules is one constructor; the message text of the
  source is kept as the constructor's arguments. The interpreter's own exceptions
  (\<^verbatim>\<open>TypeError\<close>, \<^verbatim>\<open>KeyError\<close>, ...) carry no argument.
\<close>

datatype exn =
    FileNotFound
  | InvalidJSONFile
  | MissingKey string string
  | MissingMinMax string string
  | NotIntegers string string
  | MinGreaterThanMax string string
  | TypeError
  | KeyError
  | IndexError
  | ValueError
  | AttributeError
  | OverflowError
  | ZeroDivisionError
  | InvalidURL string
  | InvalidPayload
  | PutRequestFailed
  | InvalidJSONResponse
  | InvalidLightID string
  | InvalidHue number
  | InvalidBrightness number
  | InvalidSaturation number

section \<open>Dynamic operations on Python values\<close>

text \<open>\<^verbatim>\<open>s.startswith(p)\<close> and the substring test \<^verbatim>\<open>p in s\<close> on strings.\<close>

definition startswith :: "string \<Rightarrow> string \<Rightarrow> bool" where
  "startswith s p = (take (length p) s = p)"

fun str_contains :: "string \<Rightarrow> string \<Rightarrow> bool" where
  "str_contains p [] = (p = [])"
| "str_contains p (c # cs) = (startswith (c # cs) p \<or> str_contains p cs)"

text \<open>
  \<^verbatim>\<open>key in obj\<close> for a string key: membership among the keys of a dict, among the
  elements of a list, substring test on a string; \<^verbatim>\<open>TypeError\<close> on anything else.
\<close>

fun py_contains :: "string \<Rightarrow> json \<Rightarrow> exn + bool" where
  "py_contains k (JObject kvs) = Inr (k \<in> set (map fst kvs))"
| "py_contains k (JArray xs) = Inr (JString k \<in> set xs)"
| "py_contains k (JString s) = Inr (str_contains k s)"
| "py_contains k JNull = Inl TypeError"
| "py_contains k (JBool b) = Inl TypeError"
| "py_contains k (JInt i) = Inl TypeError"
| "py_contains k (JFloat q) = Inl TypeError"

text \<open>
  \<^verbatim>\<open>obj[key]\<close> for a string key: dict lookup (\<^verbatim>\<open>KeyError\<close> when absent); lists and
  strings take integer indices only and every other value is not subscriptable, all
  \<^verbatim>\<open>TypeError\<close>.
\<close>

fun py_getitem :: "json \<Rightarrow> string \<Rightarrow> exn + json" where
  "py_getitem (JObject kvs) k = (case map_of kvs k of None \<Rightarrow> Inl KeyError | Some v \<Rightarrow> Inr v)"
| "py_getitem (JArray xs) k = Inl TypeError"
| "py_getitem (JString s) k = Inl TypeError"
| "py_getitem JNull k = Inl TypeError"
| "py_getitem (JBool b) k = Inl TypeError"
| "py_getitem (JInt i) k = Inl TypeError"
| "py_getitem (JFloat q) k = Inl TypeError"

text \<open>
  \<^verbatim>\<open>isinstance(v, int)\<close>: true of an \<^verbatim>\<open>int\<close> and, \<^verbatim>\<open>bool\<close> being a subclass of
  \<^verbatim>\<open>int\<close>, of \<^verbatim>\<open>True\<close> and \<^verbatim>\<open>False\<close>; \<open>int_value\<close> is the integer such a value
  counts as in comparisons and arithmetic.
\<close>

fun isinstance_int :: "json \<Rightarrow> bool" where
  "isinstance_int (JInt i) = True"
| "isinstance_int (JBool b) = True"
| "isinstance_int v = False"

fun int_value :: "json \<Rightarrow> int" where
  "int_value (JInt i) = i"
| "int_value (JBool b) = (if b then 1 else 0)"
| "int_value v = 0"

text \<open>Sequencing of fallible pure computations: the first exception wins.\<close>

definition and_then :: "exn + 'a \<Rightarrow> ('a \<Rightarrow> exn + 'b) \<Rightarrow> exn + 'b" where
  "and_then r f = (case r of Inl e \<Rightarrow> Inl e | Inr x \<Rightarrow> f x)"

section \<open>animation.py: loading and validating the presets\<close>

text \<open>What opening and parsing the animation file gives (lines 30--36).\<close>

datatype file_content = NoSuchFile | NotJSON | Parsed json

definition required_keys :: "string list" where
  "required_keys = [''speed'', ''hue'', ''bri'', ''sat'']"

text \<open>
  \<^verbatim>\<open>all(k in properties[key] for k in ['min', 'max'])\<close>: the generator evaluates
  \<^verbatim>\<open>properties[key]\<close> for each \<^verbatim>\<open>k\<close> and \<^verbatim>\<open>all\<close> stops at the first false test.
\<close>

definition has_min_max :: "json \<Rightarrow> string \<Rightarrow> exn + bool" where
  "has_min_max properties key =
     and_then (py_getitem properties key) (\<lambda>rng.
     and_then (py_contains ''min'' rng) (\<lambda>has_min.
       if \<not> has_min then Inr False
       else and_then (py_getitem properties key) (\<lambda>rng'. py_contains ''max'' rng')))"

text \<open>\<^verbatim>\<open>d[key][bound]\<close>, as in \<^verbatim>\<open>properties[key]['min']\<close> and \<^verbatim>\<open>config['hue']['max']\<close>.\<close>

definition range_bound :: "json \<Rightarrow> string \<Rightarrow> string \<Rightarrow> exn + json" where
  "range_bound d key bound = and_then (py_getitem d key) (\<lambda>rng. py_getitem rng bound)"

text \<open>The body of the inner loop (lines 41--51) for one preset and one required key.\<close>

definition check_key :: "string \<Rightarrow> json \<Rightarrow> string \<Rightarrow> exn + unit" where
  "check_key animation_name properties key =
     and_then (py_contains key properties) (\<lambda>present.
       if \<not> present then Inl (MissingKey key animation_name)
       else and_then (has_min_max properties key) (\<lambda>both.
         if \<not> both then Inl (MissingMinMax key animation_name)
         else and_then (range_bound properties key ''min'') (\<lambda>mn.
           if \<not> isinstance_int mn then Inl (NotIntegers key animation_name)
           else and_then (range_bound properties key ''max'') (\<lambda>mx.
             if \<not> isinstance_int mx then Inl (NotIntegers key animation_name)
             else and_then (range_bound properties key ''min'') (\<lambda>mn'.
                  and_then (range_bound properties key ''max'') (\<lambda>mx'.
                    if int_value mn' > int_value mx'
                    then Inl (MinGreaterThanMax key animation_name)
                    else Inr ()))))))"

text \<open>The inner loop \<^verbatim>\<open>for key in required_keys\<close>: the first exception leaves the loop.\<close>

fun check_keys :: "string \<Rightarrow> json \<Rightarrow> string list \<Rightarrow> exn + unit" where
  "check_keys animation_name properties [] = Inr ()"
| "check_keys animation_name properties (key # keys) =
     and_then (check_key animation_name properties key) (\<lambda>_.
       check_keys animation_name properties keys)"

text \<open>The outer loop \<^verbatim>\<open>for animation_name, properties in data.items()\<close>.\<close>

fun check_items :: "(string \<times> json) list \<Rightarrow> exn + unit" where
  "check_items [] = Inr ()"
| "check_items ((animation_name, properties) # items) =
     and_then (check_keys animation_name properties required_keys) (\<lambda>_. check_items items)"

text \<open>
  \<^verbatim>\<open>Animation.load_and_validate_animations\<close>. \<^verbatim>\<open>data.items()\<close> exists on a dict only:
  any other top-level JSON value raises \<^verbatim>\<open>AttributeError\<close>. On success the parsed data
  is returned as it is.
\<close>

fun load_and_validate_animations :: "file_content \<Rightarrow> exn + json" where
  "load_and_validate_animations NoSuchFile = Inl FileNotFound"
| "load_and_validate_animations NotJSON = Inl InvalidJSONFile"
| "load_and_validate_animations (Parsed (JObject items)) =
     and_then (check_items items) (\<lambda>_. Inr (JObject items))"
| "load_and_validate_animations (Parsed v) = Inl AttributeError"

section \<open>The world outside the program\<close>

text \<open>
  What the network answers to a request: a JSON body, a failure that aiohttp reports as
  \<^verbatim>\<open>ClientError\<close> (connection or status), or a body that is not JSON.
\<close>

datatype net_outcome = Responds json | ClientError | BadResponseBody

text \<open>The state a light is sent: the dict \<^verbatim>\<open>{"hue": .., "bri": .., "sat": ..}\<close>.\<close>

record light_state =
  st_hue :: int
  st_bri :: int
  st_sat :: int

text \<open>
  The lines written to the three log files and to standard output, one constructor per
  format string of the source (time stamps are left out).
\<close>

datatype message =
    Raised exn
  | InvalidPayloadFor json
  | PutFailedFor string
  | InvalidJSONResponseFor string
  | FailedTurnOn string exn
  | FailedSetColor string exn
  | FailedUpdate string exn
  | AnimationError exn
  | AnErrorOccurred exn
  | LightState string light_state

text \<open>
  The observable state: the PUT requests handed to the network (URL and body, in order),
  the three log files, standard output, the arguments of the \<^verbatim>\<open>asyncio.sleep\<close> calls,
  and the number of random draws made so far.
\<close>

record world =
  requests :: "(string \<times> json) list"
  http_error_log :: "message list"
  bridge_error_log :: "message list"
  error_log :: "message list"
  stdout :: "message list"
  sleeps :: "rat list"
  draws :: nat

text \<open>
  What the program does not decide: \<open>rnd i\<close> is the raw value behind the \<open>i\<close>-th random
  draw, \<open>net i url body\<close> is how the network answers the \<open>i\<close>-th request.
\<close>

record env =
  rnd :: "nat \<Rightarrow> nat"
  net :: "nat \<Rightarrow> string \<Rightarrow> json \<Rightarrow> net_outcome"

text \<open>
  A statement or coroutine: it runs on a world and gives a value or raises, and the
  world after it.
\<close>

type_synonym 'a io = "world \<Rightarrow> (exn + 'a) \<times> world"

definition io_return :: "'a \<Rightarrow> 'a io" where
  "io_return x w = (Inr x, w)"

definition io_raise :: "exn \<Rightarrow> 'a io" where
  "io_raise e w = (Inl e, w)"

definition io_of :: "exn + 'a \<Rightarrow> 'a io" where
  "io_of r w = (r, w)"

definition io_bind :: "'a io \<Rightarrow> ('a \<Rightarrow> 'b io) \<Rightarrow> 'b io" where
  "io_bind m f w = (case m w of (Inl e, w') \<Rightarrow> (Inl e, w') | (Inr x, w') \<Rightarrow> f x w')"

text \<open>\<^verbatim>\<open>try: m except Exception as e: h e\<close>.\<close>

definition io_try :: "'a io \<Rightarrow> (exn \<Rightarrow> 'a io) \<Rightarrow> 'a io" where
  "io_try m h w = (case m w of (Inl e, w') \<Rightarrow> h e w' | (Inr x, w') \<Rightarrow> (Inr x, w'))"

section \<open>http\_handler.py\<close>

definition http_log_error :: "message \<Rightarrow> unit io" where
  "http_log_error m w = (Inr (), w\<lparr>http_error_log := http_error_log w @ [m]\<rparr>)"

definition validate_url :: "string \<Rightarrow> unit io" where
  "validate_url url =
     (if \<not> startswith url ''http://'' \<and> \<not> startswith url ''https://''
      then io_bind (http_log_error (Raised (InvalidURL url))) (\<lambda>_. io_raise (InvalidURL url))
      else io_return ())"

text \<open>
  \<^verbatim>\<open>not isinstance(data, dict) or not data\<close>: a dict is false exactly when it is empty.
\<close>

definition invalid_payload :: "json \<Rightarrow> bool" where
  "invalid_payload data = (case data of JObject kvs \<Rightarrow> kvs = [] | _ \<Rightarrow> True)"

definition validate_payload :: "json \<Rightarrow> unit io" where
  "validate_payload data =
     (if invalid_payload data
      then io_bind (http_log_error (InvalidPayloadFor data)) (\<lambda>_. io_raise InvalidPayload)
      else io_return ())"

text \<open>\<^verbatim>\<open>session.put(url, json=data)\<close>: the request goes out and the network answers.\<close>

definition session_put :: "env \<Rightarrow> string \<Rightarrow> json \<Rightarrow> net_outcome io" where
  "session_put E url data w =
     (Inr (net E (length (requests w)) url data), w\<lparr>requests := requests w @ [(url, data)]\<rparr>)"

definition put :: "env \<Rightarrow> string \<Rightarrow> json \<Rightarrow> json io" where
  "put E url data =
     io_bind (validate_url url) (\<lambda>_.
     io_bind (validate_payload data) (\<lambda>_.
     io_bind (session_put E url data) (\<lambda>answer.
       case answer of
         Responds body \<Rightarrow> io_return body
       | ClientError \<Rightarrow>
           io_bind (http_log_error (PutFailedFor url)) (\<lambda>_. io_raise PutRequestFailed)
       | BadResponseBody \<Rightarrow>
           io_bind (http_log_error (InvalidJSONResponseFor url)) (\<lambda>_. io_raise InvalidJSONResponse))))"

section \<open>bridge.py\<close>

record bridge =
  ip :: string
  token :: string

definition bridge_log_error :: "message \<Rightarrow> unit io" where
  "bridge_log_error m w = (Inr (), w\<lparr>bridge_error_log := bridge_error_log w @ [m]\<rparr>)"

text \<open>A light id is a \<^verbatim>\<open>str\<close> here, so only the emptiness test of line 117 remains.\<close>

definition validate_light_id :: "string \<Rightarrow> unit io" where
  "validate_light_id light_id =
     (if light_id = []
      then io_bind (bridge_log_error (Raised (InvalidLightID light_id)))
             (\<lambda>_. io_raise (InvalidLightID light_id))
      else io_return ())"

definition get_url :: "bridge \<Rightarrow> string \<Rightarrow> string io" where
  "get_url B light_id =
     io_bind (validate_light_id light_id) (\<lambda>_.
       io_return (''http://'' @ ip B @ ''/api/'' @ token B @ ''/lights/'' @ light_id @ ''/state''))"

definition turn_on_light :: "env \<Rightarrow> bridge \<Rightarrow> string \<Rightarrow> json io" where
  "turn_on_light E B light_id =
     io_try
       (io_bind (get_url B light_id) (\<lambda>url. put E url (JObject [(''on'', JBool True)])))
       (\<lambda>e. io_bind (bridge_log_error (FailedTurnOn light_id e)) (\<lambda>_. io_raise e))"

text \<open>\<^verbatim>\<open>0 <= v <= hi\<close> on a number.\<close>

definition in_range :: "number \<Rightarrow> rat \<Rightarrow> bool" where
  "in_range v hi = (0 \<le> num_value v \<and> num_value v \<le> hi)"

definition validate_color_values :: "number \<Rightarrow> number \<Rightarrow> number \<Rightarrow> unit io" where
  "validate_color_values hue brightness saturation =
     (if \<not> in_range hue 65535
      then io_bind (bridge_log_error (Raised (InvalidHue hue))) (\<lambda>_. io_raise (InvalidHue hue))
      else if \<not> in_range brightness 254
      then io_bind (bridge_log_error (Raised (InvalidBrightness brightness)))
             (\<lambda>_. io_raise (InvalidBrightness brightness))
      else if \<not> in_range saturation 254
      then io_bind (bridge_log_error (Raised (InvalidSaturation saturation)))
             (\<lambda>_. io_raise (InvalidSaturation saturation))
      else io_return ())"

text \<open>The body of the PUT of \<^verbatim>\<open>set_light_color\<close> (lines 87--91).\<close>

definition color_data :: "number \<Rightarrow> number \<Rightarrow> number \<Rightarrow> json" where
  "color_data hue brightness saturation =
     JObject [(''hue'', json_of_number hue), (''bri'', json_of_number brightness),
              (''sat'', json_of_number saturation)]"

definition set_light_color :: "env \<Rightarrow> bridge \<Rightarrow> string \<Rightarrow> number \<Rightarrow> number \<Rightarrow> number \<Rightarrow> json io" where
  "set_light_color E B light_id hue brightness saturation =
     io_bind (validate_color_values hue brightness saturation) (\<lambda>_.
       io_try
         (io_bind (get_url B light_id) (\<lambda>url. put E url (color_data hue brightness saturation)))
         (\<lambda>e. io_bind (bridge_log_error (FailedSetColor light_id e)) (\<lambda>_. io_raise e)))"

section \<open>The libraries: random and asyncio\<close>

text \<open>
  \<^verbatim>\<open>random.randint(a, b)\<close> by its contract: \<^verbatim>\<open>ValueError\<close> on an empty range,
  otherwise \<open>a\<close> plus a number below the width \<open>b - a + 1\<close>, here the raw draw reduced
  modulo the width. \<^verbatim>\<open>random.choice(seq)\<close>: \<^verbatim>\<open>IndexError\<close> on an empty sequence,
  otherwise the element at an index below the length.
\<close>

definition randint_value :: "int \<Rightarrow> int \<Rightarrow> nat \<Rightarrow> int" where
  "randint_value a b r = a + int (r mod nat (b - a + 1))"

definition randint :: "env \<Rightarrow> int \<Rightarrow> int \<Rightarrow> int io" where
  "randint E a b w =
     (if b < a then (Inl ValueError, w)
      else (Inr (randint_value a b (rnd E (draws w))), w\<lparr>draws := Suc (draws w)\<rparr>))"

definition choice :: "env \<Rightarrow> 'a list \<Rightarrow> 'a io" where
  "choice E xs w =
     (if xs = [] then (Inl IndexError, w)
      else (Inr (xs ! (rnd E (draws w) mod length xs)), w\<lparr>draws := Suc (draws w)\<rparr>))"

text \<open>
  \<^verbatim>\<open>await asyncio.gather(*tasks)\<close> without \<^verbatim>\<open>return_exceptions\<close>: every awaitable is
  started, and the first exception of any of them is raised to the caller; with no
  exception the results are returned. The model runs the awaitables one after the other
  in the order of the list and raises the exception of the first one in that order that
  failed. The scheduler interleaves them at their network waits and raises the one that
  failed first in time, and \<^verbatim>\<open>asyncio.run\<close> cancels the ones still waiting when the
  run ends with that exception. So after a failure the requests and log entries of the
  other awaitables, and which of several failures is raised, may differ from the
  model's; a \<open>gather\<close> in which nothing fails behaves as in the model.
\<close>

fun run_all :: "'a io list \<Rightarrow> world \<Rightarrow> (exn + 'a) list \<times> world" where
  "run_all [] w = ([], w)"
| "run_all (t # ts) w =
     (case t w of (r, w') \<Rightarrow> (case run_all ts w' of (rs, w'') \<Rightarrow> (r # rs, w'')))"

fun first_exn :: "(exn + 'a) list \<Rightarrow> exn option" where
  "first_exn [] = None"
| "first_exn (Inl e # rs) = Some e"
| "first_exn (Inr x # rs) = first_exn rs"

definition gather :: "'a io list \<Rightarrow> 'a list io" where
  "gather tasks w =
     (case run_all tasks w of (rs, w') \<Rightarrow>
        (case first_exn rs of Some e \<Rightarrow> (Inl e, w') | None \<Rightarrow> (Inr (map projr rs), w')))"

definition asyncio_sleep :: "rat \<Rightarrow> unit io" where
  "asyncio_sleep seconds w = (Inr (), w\<lparr>sleeps := sleeps w @ [seconds]\<rparr>)"

section \<open>animation.py: the animation loop\<close>

record animation =
  bridge :: bridge
  lights :: "string list"
  minimum_duration :: int
  maximum_duration :: int
  animations :: json

text \<open>\<^verbatim>\<open>s.split(sep)\<close> for a one-character separator.\<close>

fun str_split :: "char \<Rightarrow> string \<Rightarrow> string list" where
  "str_split sep [] = [[]]"
| "str_split sep (c # cs) =
     (if c = sep then [] # str_split sep cs
      else (case str_split sep cs of [] \<Rightarrow> [[c]] | p # ps \<Rightarrow> (c # p) # ps))"

text \<open>
  \<^verbatim>\<open>Animation.__init__\<close>. The arguments are the values of the environment variables
  \<^verbatim>\<open>LIGHTS\<close>, \<^verbatim>\<open>MIN_DURATION\<close> and \<^verbatim>\<open>MAX_DURATION\<close> (\<open>None\<close> when unset, the two
  durations already read as integers) and the content of the animation file.
  \<^verbatim>\<open>os.getenv('LIGHTS')\<close> is \<^verbatim>\<open>None\<close> when unset, which has no \<^verbatim>\<open>split\<close>.
\<close>

definition Animation_init ::
  "bridge \<Rightarrow> string option \<Rightarrow> int option \<Rightarrow> int option \<Rightarrow> file_content \<Rightarrow> exn + animation" where
  "Animation_init B LIGHTS MIN_DURATION MAX_DURATION animation_file =
     (case LIGHTS of
        None \<Rightarrow> Inl AttributeError
      | Some s \<Rightarrow>
          and_then (load_and_validate_animations animation_file) (\<lambda>data.
            Inr \<lparr>bridge = B,
                 lights = str_split (CHR ''|'') s,
                 minimum_duration = (case MIN_DURATION of None \<Rightarrow> 20 | Some v \<Rightarrow> v),
                 maximum_duration = (case MAX_DURATION of None \<Rightarrow> 200 | Some v \<Rightarrow> v),
                 animations = data\<rparr>))"

definition animation_log_error :: "message \<Rightarrow> unit io" where
  "animation_log_error m w = (Inr (), w\<lparr>error_log := error_log w @ [m]\<rparr>)"

definition print :: "message \<Rightarrow> unit io" where
  "print m w = (Inr (), w\<lparr>stdout := stdout w @ [m]\<rparr>)"

definition debug_request :: "string \<Rightarrow> light_state \<Rightarrow> unit io" where
  "debug_request light_id state = print (LightState light_id state)"

text \<open>The integer an argument of \<^verbatim>\<open>randint\<close> stands for; \<^verbatim>\<open>TypeError\<close> when it is none.\<close>

definition py_index :: "json \<Rightarrow> exn + int" where
  "py_index v = (if isinstance_int v then Inr (int_value v) else Inl TypeError)"

text \<open>\<^verbatim>\<open>random.randint(config[key]['min'], config[key]['max'])\<close>.\<close>

definition randint_of_range :: "env \<Rightarrow> json \<Rightarrow> string \<Rightarrow> int io" where
  "randint_of_range E config key =
     io_bind (io_of (range_bound config key ''min'')) (\<lambda>mn.
     io_bind (io_of (range_bound config key ''max'')) (\<lambda>mx.
     io_bind (io_of (py_index mn)) (\<lambda>a.
     io_bind (io_of (py_index mx)) (\<lambda>b.
       randint E a b))))"

definition generate_random_state :: "env \<Rightarrow> json \<Rightarrow> light_state io" where
  "generate_random_state E config =
     io_bind (randint_of_range E config ''hue'') (\<lambda>h.
     io_bind (randint_of_range E config ''bri'') (\<lambda>b.
     io_bind (randint_of_range E config ''sat'') (\<lambda>s.
       io_return \<lparr>st_hue = h, st_bri = b, st_sat = s\<rparr>)))"

text \<open>
  The loop over the lights of one tick (lines 68--76). Calling the coroutine function
  \<^verbatim>\<open>set_light_color\<close> only creates the coroutine: it is appended to \<open>tasks\<close> and
  runs when it is awaited by \<open>gather\<close>. The \<^verbatim>\<open>try\<close> therefore covers drawing the
  state, printing it and creating the coroutine.
\<close>

fun create_tasks :: "env \<Rightarrow> animation \<Rightarrow> json \<Rightarrow> string list \<Rightarrow> json io list io" where
  "create_tasks E A config [] = io_return []"
| "create_tasks E A config (light_id # rest) =
     io_bind
       (io_try
          (io_bind (generate_random_state E config) (\<lambda>state.
           io_bind (debug_request light_id state) (\<lambda>_.
             io_return [set_light_color E (bridge A) light_id
                          (IntNum (st_hue state)) (IntNum (st_bri state)) (IntNum (st_sat state))])))
          (\<lambda>e. io_bind (animation_log_error (FailedUpdate light_id e)) (\<lambda>_. io_return [])))
       (\<lambda>new. io_bind (create_tasks E A config rest) (\<lambda>tasks. io_return (new @ tasks)))"

text \<open>
  A quotient too large for a float: the nearest double would be \<open>2 ^ 1024\<close> or beyond.
\<close>

definition float_overflow :: "rat \<Rightarrow> bool" where
  "float_overflow q = (2 ^ 1024 - 2 ^ 970 \<le> \<bar>q\<bar>)"

text \<open>
  \<^verbatim>\<open>x / d\<close> for a Python value \<open>x\<close> and an \<^verbatim>\<open>int\<close> \<open>d\<close>: \<^verbatim>\<open>ZeroDivisionError\<close> for
  \<open>d = 0\<close>; \<^verbatim>\<open>OverflowError\<close> when the quotient of two ints, or \<open>d\<close> next to a float,
  is too large for a float; \<^verbatim>\<open>TypeError\<close> when \<open>x\<close> is not a number. Otherwise the
  result is the exact quotient (Python rounds it to the nearest double).
\<close>

fun py_truediv :: "json \<Rightarrow> int \<Rightarrow> exn + rat" where
  "py_truediv (JInt i) d =
     (if d = 0 then Inl ZeroDivisionError
      else if float_overflow (of_int i / of_int d) then Inl OverflowError
      else Inr (of_int i / of_int d))"
| "py_truediv (JBool b) d =
     (if d = 0 then Inl ZeroDivisionError else Inr ((if b then 1 else 0) / of_int d))"
| "py_truediv (JFloat q) d =
     (if d = 0 then Inl ZeroDivisionError
      else if float_overflow (of_int d) then Inl OverflowError
      else Inr (q / of_int d))"
| "py_truediv v d = Inl TypeError"

text \<open>The argument of the sleep of line 79: \<^verbatim>\<open>config['speed']['min'] / 1000\<close>.\<close>

definition sleep_seconds :: "json \<Rightarrow> exn + rat" where
  "sleep_seconds config = and_then (range_bound config ''speed'' ''min'') (\<lambda>m. py_truediv m 1000)"

text \<open>One iteration of \<^verbatim>\<open>for _ in range(duration)\<close> (lines 68--79).\<close>

definition tick :: "env \<Rightarrow> animation \<Rightarrow> json \<Rightarrow> unit io" where
  "tick E A config =
     io_bind (create_tasks E A config (lights A)) (\<lambda>tasks.
     io_bind (gather tasks) (\<lambda>_.
     io_bind (io_of (sleep_seconds config)) asyncio_sleep))"

text \<open>The loop itself; \<^verbatim>\<open>range(duration)\<close> has \<open>nat duration\<close> elements.\<close>

fun tick_loop :: "env \<Rightarrow> animation \<Rightarrow> json \<Rightarrow> nat \<Rightarrow> unit io" where
  "tick_loop E A config 0 = io_return ()"
| "tick_loop E A config (Suc n) = io_bind (tick E A config) (\<lambda>_. tick_loop E A config n)"

text \<open>\<^verbatim>\<open>list(d.keys())\<close>: only a dict has keys.\<close>

definition py_keys :: "json \<Rightarrow> exn + string list" where
  "py_keys d = (case d of JObject kvs \<Rightarrow> Inr (map fst kvs) | _ \<Rightarrow> Inl AttributeError)"

definition load_effect :: "env \<Rightarrow> animation \<Rightarrow> unit io" where
  "load_effect E A =
     io_bind (gather (map (turn_on_light E (bridge A)) (lights A))) (\<lambda>_.
     io_bind (io_of (py_keys (animations A))) (\<lambda>names.
     io_bind (choice E names) (\<lambda>animation_name.
     io_bind (io_of (py_getitem (animations A) animation_name)) (\<lambda>config.
     io_bind (randint E (minimum_duration A) (maximum_duration A)) (\<lambda>duration.
       tick_loop E A config (nat duration))))))"

text \<open>
  \<^verbatim>\<open>Animation.launch\<close>: \<^verbatim>\<open>while True\<close> around a \<^verbatim>\<open>try\<close>. The loop has no exit, so
  the model takes the number of iterations to observe: the result is \<open>None\<close> when the
  loop is still running after that many iterations, and \<open>Some e\<close> when the exception \<open>e\<close>
  left it and ended the process.
\<close>

fun launch :: "env \<Rightarrow> animation \<Rightarrow> nat \<Rightarrow> world \<Rightarrow> exn option \<times> world" where
  "launch E A 0 w = (None, w)"
| "launch E A (Suc n) w =
     (case io_try (load_effect E A)
             (\<lambda>e. io_bind (animation_log_error (AnimationError e)) (\<lambda>_. print (AnErrorOccurred e))) w of
        (Inl e, w') \<Rightarrow> (Some e, w')
      | (Inr u, w') \<Rightarrow> launch E A n w')"

section \<open>The properties in the words of the specification\<close>

text \<open>
  The value a mapping gives a key; a value that is not a mapping has no keys.
\<close>

definition field :: "json \<Rightarrow> string \<Rightarrow> json option" where
  "field v k = (case v of JObject kvs \<Rightarrow> map_of kvs k | _ \<Rightarrow> None)"

text \<open>
  A range is in violation, with Python's reading of integer, when it is missing \<open>min\<close>
  or \<open>max\<close>, or one of them is not an instance of \<^verbatim>\<open>int\<close>, or \<open>min > max\<close>. The
  JSON literals \<^verbatim>\<open>true\<close> and \<^verbatim>\<open>false\<close> are instances of \<^verbatim>\<open>int\<close> (1 and 0), so bounds
  that are booleans are no violation in this reading.
\<close>

definition range_violation :: "json \<Rightarrow> bool" where
  "range_violation rng =
     (case field rng ''min'' of
        None \<Rightarrow> True
      | Some mn \<Rightarrow>
          (case field rng ''max'' of
             None \<Rightarrow> True
           | Some mx \<Rightarrow>
               \<not> isinstance_int mn \<or> \<not> isinstance_int mx \<or> int_value mn > int_value mx))"

text \<open>A preset is in violation when one of the four range keys is missing or its range is in violation.\<close>

definition preset_violation :: "json \<Rightarrow> bool" where
  "preset_violation p =
     (\<exists>key \<in> set required_keys.
        case field p key of None \<Rightarrow> True | Some rng \<Rightarrow> range_violation rng)"

text \<open>
  The same two predicates with the specification's reading of integer: a JSON number
  without fraction or exponent, which a boolean is not.
\<close>

definition is_integer :: "json \<Rightarrow> bool" where
  "is_integer v = (case v of JInt i \<Rightarrow> True | _ \<Rightarrow> False)"

definition stated_range_violation :: "json \<Rightarrow> bool" where
  "stated_range_violation rng =
     (case field rng ''min'' of
        None \<Rightarrow> True
      | Some mn \<Rightarrow>
          (case field rng ''max'' of
             None \<Rightarrow> True
           | Some mx \<Rightarrow> \<not> is_integer mn \<or> \<not> is_integer mx \<or> int_value mn > int_value mx))"

definition stated_preset_violation :: "json \<Rightarrow> bool" where
  "stated_preset_violation p =
     (\<exists>key \<in> set required_keys.
        case field p key of None \<Rightarrow> True | Some rng \<Rightarrow> stated_range_violation rng)"

text \<open>
  The validation error a range, a key of a preset, a preset and a file of presets call
  for: the conditions in the order missing key, missing \<open>min\<close> or \<open>max\<close>, bound not an
  integer (in Python's reading), \<open>min > max\<close>; the keys in the order of
  \<open>required_keys\<close>; the presets in the order of the file. \<open>None\<close> when there is no
  violation.
\<close>

definition range_error :: "string \<Rightarrow> string \<Rightarrow> json \<Rightarrow> exn option" where
  "range_error animation_name key rng =
     (case field rng ''min'' of
        None \<Rightarrow> Some (MissingMinMax key animation_name)
      | Some mn \<Rightarrow>
          (case field rng ''max'' of
             None \<Rightarrow> Some (MissingMinMax key animation_name)
           | Some mx \<Rightarrow>
               if \<not> isinstance_int mn \<or> \<not> isinstance_int mx
               then Some (NotIntegers key animation_name)
               else if int_value mn > int_value mx
               then Some (MinGreaterThanMax key animation_name)
               else None))"

definition key_error :: "string \<Rightarrow> json \<Rightarrow> string \<Rightarrow> exn option" where
  "key_error animation_name p key =
     (case field p key of
        None \<Rightarrow> Some (MissingKey key animation_name)
      | Some rng \<Rightarrow> range_error animation_name key rng)"

fun first_key_error :: "string \<Rightarrow> json \<Rightarrow> string list \<Rightarrow> exn option" where
  "first_key_error animation_name p [] = None"
| "first_key_error animation_name p (key # keys) =
     (case key_error animation_name p key of
        Some e \<Rightarrow> Some e
      | None \<Rightarrow> first_key_error animation_name p keys)"

fun first_error :: "(string \<times> json) list \<Rightarrow> exn option" where
  "first_error [] = None"
| "first_error ((animation_name, p) # items) =
     (case first_key_error animation_name p required_keys of
        Some e \<Rightarrow> Some e
      | None \<Rightarrow> first_error items)"

text \<open>A preset that is a mapping whose ranges, where present, are mappings.\<close>

definition is_mapping :: "json \<Rightarrow> bool" where
  "is_mapping v = (case v of JObject kvs \<Rightarrow> True | _ \<Rightarrow> False)"

definition well_shaped :: "json \<Rightarrow> bool" where
  "well_shaped p =
     (is_mapping p \<and>
      (\<forall>key \<in> set required_keys.
         case field p key of None \<Rightarrow> True | Some rng \<Rightarrow> is_mapping rng))"

text \<open>
  The exceptions the validation loop raises: its four errors for a preset and a key,
  and \<^verbatim>\<open>TypeError\<close>.
\<close>

definition validation_exception :: "string \<Rightarrow> string \<Rightarrow> exn \<Rightarrow> bool" where
  "validation_exception animation_name key e =
     (e = MissingKey key animation_name \<or> e = MissingMinMax key animation_name
      \<or> e = NotIntegers key animation_name \<or> e = MinGreaterThanMax key animation_name
      \<or> e = TypeError)"

text \<open>The preset's range for \<open>key\<close> is the integer interval from \<open>lo\<close> to \<open>hi\<close>.\<close>

definition has_range :: "json \<Rightarrow> string \<Rightarrow> int \<Rightarrow> int \<Rightarrow> bool" where
  "has_range config key lo hi =
     (case field config key of
        None \<Rightarrow> False
      | Some rng \<Rightarrow>
          (case field rng ''min'' of
             None \<Rightarrow> False
           | Some mn \<Rightarrow>
               (case field rng ''max'' of
                  None \<Rightarrow> False
                | Some mx \<Rightarrow>
                    isinstance_int mn \<and> isinstance_int mx \<and> int_value mn = lo \<and> int_value mx = hi)))"

text \<open>The scheme of a URL: what stands before the first colon.\<close>

definition url_scheme :: "string \<Rightarrow> string" where
  "url_scheme url = takeWhile (\<lambda>c. c \<noteq> CHR '':'') url"

text \<open>
  A preset with the \<open>max\<close> of its speed range replaced by \<open>x\<close> (a preset without a speed
  range is left as it is), and an animation set with the speed \<open>max\<close> of every preset
  \<open>name\<close> replaced by \<open>f name\<close>.
\<close>

definition set_speed_max :: "json \<Rightarrow> json \<Rightarrow> json" where
  "set_speed_max x config =
     (case config of
        JObject kvs \<Rightarrow>
          (case map_of kvs ''speed'' of
             Some (JObject r) \<Rightarrow>
               JObject (AList.update ''speed'' (JObject (AList.update ''max'' x r)) kvs)
           | _ \<Rightarrow> config)
      | _ \<Rightarrow> config)"

definition set_all_speed_max :: "(string \<Rightarrow> json) \<Rightarrow> json \<Rightarrow> json" where
  "set_all_speed_max f d =
     (case d of
        JObject kvs \<Rightarrow> JObject (map (\<lambda>(name, p). (name, set_speed_max (f name) p)) kvs)
      | _ \<Rightarrow> d)"

text \<open>A statement that leaves the observation \<open>f\<close> of the world as it was.\<close>

definition preserves :: "(world \<Rightarrow> 'b) \<Rightarrow> 'a io \<Rightarrow> bool" where
  "preserves f m = (\<forall>w. f (snd (m w)) = f w)"

text \<open>
  The preset's range for \<open>key\<close> is an integer interval with \<open>min \<le> max\<close> that lies
  within \<open>lo\<close> to \<open>hi\<close>.
\<close>

definition range_within :: "json \<Rightarrow> string \<Rightarrow> int \<Rightarrow> int \<Rightarrow> bool" where
  "range_within config key lo hi =
     (case field config key of
        None \<Rightarrow> False
      | Some rng \<Rightarrow>
          (case field rng ''min'' of
             None \<Rightarrow> False
           | Some mn \<Rightarrow>
               (case field rng ''max'' of
                  None \<Rightarrow> False
                | Some mx \<Rightarrow>
                    isinstance_int mn \<and> isinstance_int mx \<and> lo \<le> int_value mn
                    \<and> int_value mn \<le> int_value mx \<and> int_value mx \<le> hi)))"

text \<open>
  A preset whose states the bridge accepts: hue within 0..65535, bri and sat within
  0..254, and a speed \<open>min\<close> that is a number.
\<close>

definition sendable_preset :: "json \<Rightarrow> bool" where
  "sendable_preset config =
     (range_within config ''hue'' 0 65535 \<and> range_within config ''bri'' 0 254
      \<and> range_within config ''sat'' 0 254 \<and> \<not> isl (sleep_seconds config))"

section \<open>Example inputs\<close>

text \<open>
  The example of the specification: the preset \<open>pulse\<close>, the lights \<^verbatim>\<open>1|2\<close> and both
  duration bounds 3; a network that answers every request, and the raw draws 0, 1, 2, ...
\<close>

definition pulse :: json where
  "pulse = JObject [(''speed'', JObject [(''min'', JInt 50), (''max'', JInt 50)]),
                    (''hue'', JObject [(''min'', JInt 0), (''max'', JInt 100)]),
                    (''bri'', JObject [(''min'', JInt 100), (''max'', JInt 150)]),
                    (''sat'', JObject [(''min'', JInt 200), (''max'', JInt 254)])]"

definition empty_world :: world where
  "empty_world = \<lparr>requests = [], http_error_log = [], bridge_error_log = [], error_log = [],
                   stdout = [], sleeps = [], draws = 0\<rparr>"

definition calm_env :: env where
  "calm_env = \<lparr>rnd = (\<lambda>i. i), net = (\<lambda>i url body. Responds (JArray []))\<rparr>"

definition hub :: bridge where
  "hub = \<lparr>ip = ''10.0.0.2'', token = ''t''\<rparr>"

definition pulse_show :: animation where
  "pulse_show = \<lparr>bridge = hub, lights = [''1'', ''2''], minimum_duration = 3,
                  maximum_duration = 3, animations = JObject [(''pulse'', pulse)]\<rparr>"

text \<open>
  A preset the loader accepts whose hue range ends one above the largest hue of the
  bridge, and the show that runs it.
\<close>

definition glare :: json where
  "glare = JObject [(''speed'', JObject [(''min'', JInt 50), (''max'', JInt 50)]),
                    (''hue'', JObject [(''min'', JInt 65535), (''max'', JInt 65536)]),
                    (''bri'', JObject [(''min'', JInt 100), (''max'', JInt 100)]),
                    (''sat'', JObject [(''min'', JInt 200), (''max'', JInt 200)])]"

definition glare_show :: animation where
  "glare_show = \<lparr>bridge = hub, lights = [''1'', ''2''], minimum_duration = 3,
                  maximum_duration = 3, animations = JObject [(''glare'', glare)]\<rparr>"

text \<open>
  The show with \<^verbatim>\<open>LIGHTS=1|\<close>: the trailing separator gives a second, empty light id.
\<close>

definition dark_show :: animation where
  "dark_show = \<lparr>bridge = hub, lights = str_split (CHR ''|'') ''1|'', minimum_duration = 3,
                 maximum_duration = 3, animations = JObject [(''pulse'', pulse)]\<rparr>"

text \<open>
  The preset \<open>pulse\<close> with the bounds of its speed range written as the JSON literals
  \<^verbatim>\<open>false\<close> and \<^verbatim>\<open>true\<close>.
\<close>

definition flagged :: json where
  "flagged = JObject [(''speed'', JObject [(''min'', JBool False), (''max'', JBool True)]),
                      (''hue'', JObject [(''min'', JInt 0), (''max'', JInt 100)]),
                      (''bri'', JObject [(''min'', JInt 100), (''max'', JInt 150)]),
                      (''sat'', JObject [(''min'', JInt 200), (''max'', JInt 254)])]"

text \<open>
  The show with the duration bounds left unset, and an environment whose raw draws are
  4, 11, 18, ...
\<close>

definition default_show :: animation where
  "default_show = \<lparr>bridge = hub, lights = [''1'', ''2''], minimum_duration = 20,
                    maximum_duration = 200, animations = JObject [(''pulse'', pulse)]\<rparr>"

definition lively_env :: env where
  "lively_env = \<lparr>rnd = (\<lambda>i. 7 * i + 4), net = (\<lambda>i url body. Responds (JArray []))\<rparr>"

section \<open>Properties\<close>

subsection \<open>Sequencing\<close>

lemma and_then_simps [simp]:
  "and_then (Inl e) f = Inl e" "and_then (Inr x) f = f x"
  by (simp_all add: and_then_def)

subsection \<open>Validation of the presets\<close>

lemma py_contains_object: "py_contains k (JObject kvs) = Inr (map_of kvs k \<noteq> None)"
  by (simp add: map_of_eq_None_iff)

lemma check_key_not_a_range:
  assumes "\<not> (\<exists>r. rng = JObject r)" and "map_of kvs key = Some rng"
  shows "isl (check_key n (JObject kvs) key)"
  using assms
  by (cases rng)
     (simp_all add: check_key_def range_bound_def has_min_max_def py_contains_object
        del: py_contains.simps(1))

lemma check_key_range:
  assumes "map_of kvs key = Some (JObject r)"
  shows "isl (check_key n (JObject kvs) key) \<longleftrightarrow> range_violation (JObject r)"
  using assms
  by (cases "map_of r ''min''"; cases "map_of r ''max''")
     (simp_all add: check_key_def range_bound_def has_min_max_def py_contains_object
        range_violation_def field_def del: py_contains.simps(1))

lemma check_key_iff:
  "isl (check_key n p key) \<longleftrightarrow>
     (case field p key of None \<Rightarrow> True | Some rng \<Rightarrow> range_violation rng)"
proof (cases p)
  case (JObject kvs)
  show ?thesis
  proof (cases "map_of kvs key")
    case None
    then show ?thesis using JObject
      by (simp add: check_key_def py_contains_object field_def del: py_contains.simps(1))
  next
    case (Some rng)
    show ?thesis
    proof (cases "\<exists>r. rng = JObject r")
      case True
      then obtain r where "rng = JObject r" by blast
      then show ?thesis using check_key_range[of kvs key r n] Some JObject
        by (simp add: field_def)
    next
      case False
      then have "isl (check_key n (JObject kvs) key)"
        using check_key_not_a_range[of rng kvs key n] Some by simp
      moreover have "range_violation rng" using False
        by (cases rng) (simp_all add: range_violation_def field_def)
      ultimately show ?thesis using Some JObject by (simp add: field_def)
    qed
  qed
qed (simp_all add: check_key_def has_min_max_def field_def)

lemma check_keys_iff:
  "isl (check_keys n p keys) \<longleftrightarrow>
     (\<exists>key \<in> set keys. case field p key of None \<Rightarrow> True | Some rng \<Rightarrow> range_violation rng)"
proof (induction keys)
  case Nil
  show ?case by simp
next
  case (Cons key keys)
  show ?case
  proof (cases "check_key n p key")
    case (Inl e)
    then have "isl (check_key n p key)" by simp
    then show ?thesis using Inl check_key_iff[of n p key] by simp
  next
    case (Inr u)
    then have "\<not> isl (check_key n p key)" by simp
    then show ?thesis using Inr check_key_iff[of n p key] Cons.IH by simp
  qed
qed

lemma check_items_iff:
  "isl (check_items items) \<longleftrightarrow> (\<exists>p \<in> snd ` set items. preset_violation p)"
proof (induction items)
  case Nil
  show ?case by simp
next
  case (Cons item items)
  obtain n p where item: "item = (n, p)" by (cases item)
  show ?case
  proof (cases "check_keys n p required_keys")
    case (Inl e)
    then have "isl (check_keys n p required_keys)" by simp
    then have "preset_violation p" using check_keys_iff[of n p required_keys]
      by (simp add: preset_violation_def)
    then show ?thesis using Inl item by simp
  next
    case (Inr u)
    then have "\<not> isl (check_keys n p required_keys)" by simp
    then have "\<not> preset_violation p" using check_keys_iff[of n p required_keys]
      by (simp add: preset_violation_def)
    then show ?thesis using Inr item Cons.IH by simp
  qed
qed

lemma pulse_no_violation: "\<not> preset_violation pulse"
  by (simp add: preset_violation_def required_keys_def pulse_def field_def range_violation_def)

lemma check_key_exact:
  assumes "is_mapping p" and "case field p key of None \<Rightarrow> True | Some rng \<Rightarrow> is_mapping rng"
  shows "check_key n p key = (case key_error n p key of Some e \<Rightarrow> Inl e | None \<Rightarrow> Inr ())"
proof -
  obtain kvs where p: "p = JObject kvs"
    using assms(1) by (cases p) (simp_all add: is_mapping_def)
  show ?thesis
  proof (cases "map_of kvs key")
    case None
    then show ?thesis using p
      by (simp add: check_key_def py_contains_object key_error_def field_def
            del: py_contains.simps(1))
  next
    case (Some rng)
    then obtain r where r: "rng = JObject r"
      using assms(2) p by (cases rng) (simp_all add: is_mapping_def field_def)
    show ?thesis
      using Some p r
      by (cases "map_of r ''min''"; cases "map_of r ''max''")
         (simp_all add: check_key_def range_bound_def has_min_max_def py_contains_object
            key_error_def range_error_def field_def del: py_contains.simps(1))
  qed
qed

lemma check_keys_exact:
  assumes "is_mapping p"
    and "\<forall>key \<in> set keys. case field p key of None \<Rightarrow> True | Some rng \<Rightarrow> is_mapping rng"
  shows "check_keys n p keys =
           (case first_key_error n p keys of Some e \<Rightarrow> Inl e | None \<Rightarrow> Inr ())"
  using assms(2)
proof (induction keys)
  case Nil
  show ?case by simp
next
  case (Cons key keys)
  have k: "check_key n p key = (case key_error n p key of Some e \<Rightarrow> Inl e | None \<Rightarrow> Inr ())"
    using check_key_exact[OF assms(1), of key n] Cons.prems by simp
  show ?case using k Cons by (cases "key_error n p key") simp_all
qed

lemma check_items_exact:
  assumes "\<forall>p \<in> snd ` set items. well_shaped p"
  shows "check_items items = (case first_error items of Some e \<Rightarrow> Inl e | None \<Rightarrow> Inr ())"
  using assms
proof (induction items)
  case Nil
  show ?case by simp
next
  case (Cons item items)
  obtain n p where item: "item = (n, p)" by (cases item)
  have "well_shaped p" using Cons.prems item by simp
  then have k: "check_keys n p required_keys =
                  (case first_key_error n p required_keys of Some e \<Rightarrow> Inl e | None \<Rightarrow> Inr ())"
    using check_keys_exact[of p required_keys n] by (simp add: well_shaped_def)
  show ?case using k Cons item by (cases "first_key_error n p required_keys") simp_all
qed

lemma check_key_kind:
  assumes "check_key n p key = Inl e"
  shows "validation_exception n key e"
proof (cases p)
  case (JObject kvs)
  show ?thesis
  proof (cases "map_of kvs key")
    case None
    then show ?thesis using assms JObject
      by (simp add: check_key_def py_contains_object validation_exception_def
            del: py_contains.simps(1))
  next
    case (Some rng)
    show ?thesis
    proof (cases rng)
      case r: (JObject r)
      show ?thesis
        using assms JObject Some r
        by (cases "map_of r ''min''"; cases "map_of r ''max''")
           (auto simp add: check_key_def range_bound_def has_min_max_def py_contains_object
              validation_exception_def split: if_splits simp del: py_contains.simps(1))
    qed (use assms JObject Some in
          \<open>auto simp add: check_key_def range_bound_def has_min_max_def py_contains_object
             validation_exception_def split: if_splits simp del: py_contains.simps(1)\<close>)
  qed
qed (use assms in
      \<open>auto simp add: check_key_def range_bound_def has_min_max_def validation_exception_def
         split: if_splits\<close>)

lemma check_keys_kind:
  assumes "check_keys n p keys = Inl e"
  shows "\<exists>key \<in> set keys. validation_exception n key e"
  using assms
proof (induction keys)
  case Nil
  then show ?case by simp
next
  case (Cons key keys)
  show ?case
  proof (cases "check_key n p key")
    case (Inl e')
    then have "e' = e" using Cons.prems by simp
    then show ?thesis using check_key_kind[of n p key e] Inl by simp
  next
    case (Inr u)
    then have "check_keys n p keys = Inl e" using Cons.prems by simp
    then show ?thesis using Cons.IH by simp
  qed
qed

lemma check_items_kind:
  assumes "check_items items = Inl e"
  shows "\<exists>n \<in> fst ` set items. \<exists>key \<in> set required_keys. validation_exception n key e"
  using assms
proof (induction items)
  case Nil
  then show ?case by simp
next
  case (Cons item items)
  obtain n p where item: "item = (n, p)" by (cases item)
  show ?case
  proof (cases "check_keys n p required_keys")
    case (Inl e')
    then have "e' = e" using Cons.prems item by simp
    then have "\<exists>key \<in> set required_keys. validation_exception n key e"
      using check_keys_kind[of n p required_keys e] Inl by simp
    then show ?thesis using item by simp
  next
    case (Inr u)
    then have "check_items items = Inl e" using Cons.prems item by simp
    then show ?thesis using Cons.IH by simp
  qed
qed

text \<open>
  C3, as the claim states it, fails: the bounds \<^verbatim>\<open>false\<close> and \<^verbatim>\<open>true\<close> of the speed
  range of \<open>flagged\<close> are not integers, and the file loads.
\<close>

theorem boolean_bounds_load:
  "stated_preset_violation flagged
   \<and> load_and_validate_animations (Parsed (JObject [(''flagged'', flagged)])) =
       Inr (JObject [(''flagged'', flagged)])"
proof -
  have "\<not> preset_violation flagged"
    by (simp add: preset_violation_def required_keys_def flagged_def field_def range_violation_def)
  then have "\<not> isl (check_items [(''flagged'', flagged)])"
    using check_items_iff[of "[(''flagged'', flagged)]"] by simp
  then have "load_and_validate_animations (Parsed (JObject [(''flagged'', flagged)])) =
               Inr (JObject [(''flagged'', flagged)])"
    by (cases "check_items [(''flagged'', flagged)]") simp_all
  moreover have "stated_preset_violation flagged"
    by (simp add: stated_preset_violation_def required_keys_def flagged_def field_def
          stated_range_violation_def is_integer_def)
  ultimately show ?thesis by simp
qed

text \<open>
  C3, amended. With Python's reading of integer, in which the JSON literals
  \<^verbatim>\<open>true\<close> and \<^verbatim>\<open>false\<close> are the integers 1 and 0, loading a parsed mapping of presets
  raises, and so returns no preset at all, exactly when some preset is missing one of
  the four range keys, or one of its ranges is missing \<open>min\<close> or \<open>max\<close>, or has a bound
  that is not an integer, or has \<open>min > max\<close>; otherwise it returns the whole parsed
  mapping. What it raises is one of the four validation errors, for a preset of the file
  and one of the four keys, or a \<^verbatim>\<open>TypeError\<close>. When every preset is a mapping and so
  is each of its ranges, it is the validation error of the first violation: in the order
  of the file, of the four keys, and of the four conditions.
\<close>

theorem load_and_validate_animations_exact:
  "(if \<exists>p \<in> snd ` set items. preset_violation p
    then \<exists>e. load_and_validate_animations (Parsed (JObject items)) = Inl e
           \<and> (\<exists>n \<in> fst ` set items. \<exists>key \<in> set required_keys. validation_exception n key e)
    else load_and_validate_animations (Parsed (JObject items)) = Inr (JObject items))
   \<and> ((\<forall>p \<in> snd ` set items. well_shaped p) \<longrightarrow>
        load_and_validate_animations (Parsed (JObject items)) =
          (case first_error items of Some e \<Rightarrow> Inl e | None \<Rightarrow> Inr (JObject items)))"
proof
  show "if \<exists>p \<in> snd ` set items. preset_violation p
    then \<exists>e. load_and_validate_animations (Parsed (JObject items)) = Inl e
           \<and> (\<exists>n \<in> fst ` set items. \<exists>key \<in> set required_keys. validation_exception n key e)
    else load_and_validate_animations (Parsed (JObject items)) = Inr (JObject items)"
  proof (cases "check_items items")
    case (Inl e)
    then have "isl (check_items items)" by simp
    then have "\<exists>p \<in> snd ` set items. preset_violation p" using check_items_iff[of items] by simp
    then show ?thesis using Inl check_items_kind[OF Inl] by simp
  next
    case (Inr u)
    then have "\<not> isl (check_items items)" by simp
    then show ?thesis using Inr check_items_iff[of items] by simp
  qed
next
  show "(\<forall>p \<in> snd ` set items. well_shaped p) \<longrightarrow>
        load_and_validate_animations (Parsed (JObject items)) =
          (case first_error items of Some e \<Rightarrow> Inl e | None \<Rightarrow> Inr (JObject items))"
  proof
    assume "\<forall>p \<in> snd ` set items. well_shaped p"
    then have "check_items items = (case first_error items of Some e \<Rightarrow> Inl e | None \<Rightarrow> Inr ())"
      by (rule check_items_exact)
    then show "load_and_validate_animations (Parsed (JObject items)) =
          (case first_error items of Some e \<Rightarrow> Inl e | None \<Rightarrow> Inr (JObject items))"
      by (cases "first_error items") simp_all
  qed
qed

theorem load_and_validate_animations_exact_witness:
  "load_and_validate_animations (Parsed (JObject [(''pulse'', pulse)])) = Inr (JObject [(''pulse'', pulse)])
   \<and> load_and_validate_animations
        (Parsed (JObject [(''pulse'', pulse),
                          (''dim'', JObject [(''speed'', JObject [(''min'', JInt 9), (''max'', JInt 1)])])])) =
       Inl (MinGreaterThanMax ''speed'' ''dim'')
   \<and> load_and_validate_animations
        (Parsed (JObject [(''dim'', JObject [(''speed'', JObject [(''min'', JInt 1), (''max'', JFloat 2)])])])) =
       Inl (NotIntegers ''speed'' ''dim'')
   \<and> isl (load_and_validate_animations (Parsed (JObject [(''odd'', JString ''speed'')])))"
proof -
  let ?dim = "JObject [(''speed'', JObject [(''min'', JInt 9), (''max'', JInt 1)])]"
  let ?dim' = "JObject [(''speed'', JObject [(''min'', JInt 1), (''max'', JFloat 2)])]"
  have ws: "well_shaped pulse" "well_shaped ?dim" "well_shaped ?dim'"
    by (simp_all add: well_shaped_def is_mapping_def required_keys_def field_def pulse_def)
  have p: "first_key_error ''pulse'' pulse required_keys = None"
    by (simp add: required_keys_def key_error_def range_error_def field_def pulse_def)
  have d: "first_key_error ''dim'' ?dim required_keys = Some (MinGreaterThanMax ''speed'' ''dim'')"
    by (simp add: required_keys_def key_error_def range_error_def field_def)
  have d': "first_key_error ''dim'' ?dim' required_keys = Some (NotIntegers ''speed'' ''dim'')"
    by (simp add: required_keys_def key_error_def range_error_def field_def)
  have odd: "preset_violation (JString ''speed'')"
    by (auto simp add: preset_violation_def required_keys_def field_def)
  show ?thesis
    using load_and_validate_animations_exact[of "[(''pulse'', pulse)]"]
      load_and_validate_animations_exact[of "[(''pulse'', pulse), (''dim'', ?dim)]"]
      load_and_validate_animations_exact[of "[(''dim'', ?dim')]"]
      load_and_validate_animations_exact[of "[(''odd'', JString ''speed'')]"]
      ws p d d' odd
    by auto
qed

text \<open>
  C9, as the claim states it, fails: a file with zero presets loads, and the animation
  set it gives is empty.
\<close>

theorem empty_animation_set_loads:
  "load_and_validate_animations (Parsed (JObject [])) = Inr (JObject [])"
  by simp

text \<open>
  C9, amended. The loader has no emptiness check: whatever it returns is the parsed
  mapping itself, and a mapping whose presets are all free of violations, the mapping of
  zero presets among them, is returned as it is.
\<close>

theorem load_returns_parsed_mapping:
  "(load_and_validate_animations content = Inr d \<longrightarrow> content = Parsed d \<and> (\<exists>items. d = JObject items))
   \<and> ((\<forall>p \<in> snd ` set items. \<not> preset_violation p) \<longrightarrow>
        load_and_validate_animations (Parsed (JObject items)) = Inr (JObject items))"
proof
  show "load_and_validate_animations content = Inr d \<longrightarrow> content = Parsed d \<and> (\<exists>items. d = JObject items)"
  proof
    assume ok: "load_and_validate_animations content = Inr d"
    show "content = Parsed d \<and> (\<exists>items. d = JObject items)"
    proof (cases content)
      case (Parsed v)
      then show ?thesis using ok
        by (cases v; cases "check_items (case v of JObject items \<Rightarrow> items | _ \<Rightarrow> [])") auto
    qed (use ok in simp_all)
  qed
next
  show "(\<forall>p \<in> snd ` set items. \<not> preset_violation p) \<longrightarrow>
        load_and_validate_animations (Parsed (JObject items)) = Inr (JObject items)"
  proof
    assume "\<forall>p \<in> snd ` set items. \<not> preset_violation p"
    then have "\<not> isl (check_items items)" using check_items_iff[of items] by simp
    then show "load_and_validate_animations (Parsed (JObject items)) = Inr (JObject items)"
      by (cases "check_items items") simp_all
  qed
qed

theorem load_returns_parsed_mapping_witness:
  "load_and_validate_animations (Parsed (JObject [])) = Inr (JObject [])
   \<and> Parsed (JObject []) = Parsed (JObject []) \<and> (\<exists>items. JObject [] = JObject (items :: (string \<times> json) list))"
  using load_returns_parsed_mapping[of "Parsed (JObject [])" "JObject []" "[]"]
  by simp

subsection \<open>The transport\<close>

lemma startswith_append [simp]: "startswith (p @ rest) p"
  by (simp add: startswith_def)

lemma startswith_split: "startswith url p \<Longrightarrow> url = p @ drop (length p) url"
  by (metis append_take_drop_id startswith_def)

lemma url_scheme_http:
  assumes "startswith url ''http://''"
  shows "url_scheme url = ''http''"
proof -
  obtain rest where "url = ''http://'' @ rest"
    using startswith_split[OF assms] by blast
  then show ?thesis by (simp add: url_scheme_def)
qed

lemma url_scheme_https:
  assumes "startswith url ''https://''"
  shows "url_scheme url = ''https''"
proof -
  obtain rest where "url = ''https://'' @ rest"
    using startswith_split[OF assms] by blast
  then show ?thesis by (simp add: url_scheme_def)
qed

lemma put_invalid_url:
  assumes "\<not> startswith url ''http://''" and "\<not> startswith url ''https://''"
  shows "put E url data w =
           (Inl (InvalidURL url), w\<lparr>http_error_log := http_error_log w @ [Raised (InvalidURL url)]\<rparr>)"
  using assms
  by (simp add: put_def validate_url_def io_bind_def http_log_error_def io_raise_def)

lemma put_invalid_payload:
  assumes "startswith url ''http://'' \<or> startswith url ''https://''" and "invalid_payload data"
  shows "put E url data w =
           (Inl InvalidPayload, w\<lparr>http_error_log := http_error_log w @ [InvalidPayloadFor data]\<rparr>)"
  using assms
  by (auto simp add: put_def validate_url_def validate_payload_def io_bind_def http_log_error_def
        io_raise_def io_return_def)

lemma put_requests:
  assumes "startswith url ''http://'' \<or> startswith url ''https://''" and "\<not> invalid_payload data"
  shows "requests (snd (put E url data w)) = requests w @ [(url, data)]"
  using assms
  by (auto simp add: put_def validate_url_def validate_payload_def io_bind_def http_log_error_def
        io_raise_def io_return_def session_put_def split: net_outcome.splits)

text \<open>
  C8, as the claim states it, fails: a body that is a mapping but not a flat one passes
  the validation and is sent.
\<close>

theorem put_sends_nested_body:
  "put calm_env ''http://hub/x'' (JObject [(''a'', JObject [(''b'', JInt 1)])]) empty_world =
     (Inr (JArray []),
      empty_world\<lparr>requests := [(''http://hub/x'', JObject [(''a'', JObject [(''b'', JInt 1)])])]\<rparr>)"
  by (simp add: put_def validate_url_def validate_payload_def invalid_payload_def io_bind_def
        io_return_def session_put_def startswith_def calm_env_def empty_world_def)

text \<open>
  C8, amended. \<open>put\<close> raises the invalid-URL error when the URL does not begin with
  \<^verbatim>\<open>http://\<close> or \<^verbatim>\<open>https://\<close>, as is the case when its scheme is neither; for a URL that
  passes, it raises the invalid-payload error when the body is empty or not a mapping.
  In both cases the error is written to the transport's log and no request is made.
  A non-empty mapping is sent, whatever its values.
\<close>

theorem put_validates_url_then_payload:
  "((url_scheme url \<noteq> ''http'' \<and> url_scheme url \<noteq> ''https'')
      \<or> (\<not> startswith url ''http://'' \<and> \<not> startswith url ''https://'') \<longrightarrow>
      put E url data w =
        (Inl (InvalidURL url), w\<lparr>http_error_log := http_error_log w @ [Raised (InvalidURL url)]\<rparr>))
   \<and> ((startswith url ''http://'' \<or> startswith url ''https://'')
        \<and> (data = JObject [] \<or> (\<forall>kvs. data \<noteq> JObject kvs)) \<longrightarrow>
      put E url data w =
        (Inl InvalidPayload, w\<lparr>http_error_log := http_error_log w @ [InvalidPayloadFor data]\<rparr>))
   \<and> ((startswith url ''http://'' \<or> startswith url ''https://'')
        \<and> data = JObject kvs \<and> kvs \<noteq> [] \<longrightarrow>
      requests (snd (put E url data w)) = requests w @ [(url, data)])"
proof (intro conjI impI)
  assume "(url_scheme url \<noteq> ''http'' \<and> url_scheme url \<noteq> ''https'')
      \<or> (\<not> startswith url ''http://'' \<and> \<not> startswith url ''https://'')"
  then have "\<not> startswith url ''http://''" and "\<not> startswith url ''https://''"
    using url_scheme_http[of url] url_scheme_https[of url] by auto
  then show "put E url data w =
        (Inl (InvalidURL url), w\<lparr>http_error_log := http_error_log w @ [Raised (InvalidURL url)]\<rparr>)"
    by (rule put_invalid_url)
next
  assume a: "(startswith url ''http://'' \<or> startswith url ''https://'')
        \<and> (data = JObject [] \<or> (\<forall>kvs. data \<noteq> JObject kvs))"
  then have "invalid_payload data"
    by (cases data) (auto simp add: invalid_payload_def)
  then show "put E url data w =
        (Inl InvalidPayload, w\<lparr>http_error_log := http_error_log w @ [InvalidPayloadFor data]\<rparr>)"
    using a put_invalid_payload by blast
next
  assume a: "(startswith url ''http://'' \<or> startswith url ''https://'')
        \<and> data = JObject kvs \<and> kvs \<noteq> []"
  then have "\<not> invalid_payload data" by (simp add: invalid_payload_def)
  then show "requests (snd (put E url data w)) = requests w @ [(url, data)]"
    using a put_requests by blast
qed

theorem put_validates_url_then_payload_witness:
  "put calm_env ''ftp://hub/x'' (JObject [(''on'', JBool True)]) empty_world =
     (Inl (InvalidURL ''ftp://hub/x''), empty_world\<lparr>http_error_log := [Raised (InvalidURL ''ftp://hub/x'')]\<rparr>)
   \<and> put calm_env ''http://hub/x'' (JObject []) empty_world =
     (Inl InvalidPayload, empty_world\<lparr>http_error_log := [InvalidPayloadFor (JObject [])]\<rparr>)
   \<and> put calm_env ''http://hub/x'' (JArray [JInt 1]) empty_world =
     (Inl InvalidPayload, empty_world\<lparr>http_error_log := [InvalidPayloadFor (JArray [JInt 1])]\<rparr>)
   \<and> requests (snd (put calm_env ''https://hub/x'' (JObject [(''on'', JBool True)]) empty_world)) =
       [(''https://hub/x'', JObject [(''on'', JBool True)])]"
proof -
  have s1: "url_scheme ''ftp://hub/x'' \<noteq> ''http'' \<and> url_scheme ''ftp://hub/x'' \<noteq> ''https''"
    by (simp add: url_scheme_def)
  have s2: "startswith ''http://hub/x'' ''http://''" and s3: "startswith ''https://hub/x'' ''https://''"
    by (simp_all add: startswith_def)
  have e: "http_error_log empty_world = []" "requests empty_world = []"
    by (simp_all add: empty_world_def)
  show ?thesis
    using put_validates_url_then_payload[of "''ftp://hub/x''" calm_env "JObject [(''on'', JBool True)]" empty_world "[]"]
      put_validates_url_then_payload[of "''http://hub/x''" calm_env "JObject []" empty_world "[]"]
      put_validates_url_then_payload[of "''http://hub/x''" calm_env "JArray [JInt 1]" empty_world "[]"]
      put_validates_url_then_payload[of "''https://hub/x''" calm_env "JObject [(''on'', JBool True)]" empty_world "[(''on'', JBool True)]"]
      s1 s2 s3 e
    by simp
qed

subsection \<open>The gateway\<close>

lemma get_url_valid:
  "light_id \<noteq> [] \<Longrightarrow>
   get_url B light_id w =
     (Inr (''http://'' @ ip B @ ''/api/'' @ token B @ ''/lights/'' @ light_id @ ''/state''), w)"
  by (simp add: get_url_def validate_light_id_def io_bind_def io_return_def)

lemma color_data_valid [simp]: "\<not> invalid_payload (color_data hue brightness saturation)"
  by (simp add: color_data_def invalid_payload_def)

lemma validate_color_values_ok:
  "in_range hue 65535 \<Longrightarrow> in_range brightness 254 \<Longrightarrow> in_range saturation 254 \<Longrightarrow>
   validate_color_values hue brightness saturation w = (Inr (), w)"
  by (simp add: validate_color_values_def io_return_def)

lemma set_light_color_requests:
  assumes "in_range hue 65535" "in_range brightness 254" "in_range saturation 254" "light_id \<noteq> []"
  shows "requests (snd (set_light_color E B light_id hue brightness saturation w)) =
           requests w @ [(''http://'' @ ip B @ ''/api/'' @ token B @ ''/lights/'' @ light_id @ ''/state'',
                          color_data hue brightness saturation)]"
proof -
  let ?url = "''http://'' @ ip B @ ''/api/'' @ token B @ ''/lights/'' @ light_id @ ''/state''"
  let ?data = "color_data hue brightness saturation"
  have sw: "startswith ?url ''http://''"
    by (simp add: startswith_def)
  have sent: "requests (snd (put E ?url ?data w)) = requests w @ [(?url, ?data)]"
    by (rule put_requests[OF disjI1[OF sw] color_data_valid])
  obtain r w' where p: "put E ?url ?data w = (r, w')" by (cases "put E ?url ?data w")
  show ?thesis
    using assms sent p
    by (cases r)
       (simp_all add: set_light_color_def validate_color_values_ok get_url_valid io_bind_def
          io_try_def bridge_log_error_def io_raise_def)
qed

lemma set_light_color_rejects:
  "set_light_color E B light_id hue brightness saturation w =
     (if \<not> in_range hue 65535
      then (Inl (InvalidHue hue), w\<lparr>bridge_error_log := bridge_error_log w @ [Raised (InvalidHue hue)]\<rparr>)
      else if \<not> in_range brightness 254
      then (Inl (InvalidBrightness brightness),
            w\<lparr>bridge_error_log := bridge_error_log w @ [Raised (InvalidBrightness brightness)]\<rparr>)
      else if \<not> in_range saturation 254
      then (Inl (InvalidSaturation saturation),
            w\<lparr>bridge_error_log := bridge_error_log w @ [Raised (InvalidSaturation saturation)]\<rparr>)
      else io_try
         (io_bind (get_url B light_id) (\<lambda>url. put E url (color_data hue brightness saturation)))
         (\<lambda>e. io_bind (bridge_log_error (FailedSetColor light_id e)) (\<lambda>_. io_raise e)) w)"
  by (simp add: set_light_color_def validate_color_values_def io_bind_def bridge_log_error_def
        io_raise_def io_return_def)

text \<open>
  C4. A call of \<open>set_light_color\<close> with a hue outside 0..65535, or a brightness or a
  saturation outside 0..254, raises the error of the first value out of range; the world
  after it is the world before with that error appended to the gateway's log, so no
  request was made and the transport was not called. With the three values in range and
  a light id (a non-empty string), one PUT is made, whose body is exactly hue, bri, sat.
\<close>

theorem set_light_color_validates_before_transport:
  "(if \<not> (0 \<le> num_value hue \<and> num_value hue \<le> 65535)
    then set_light_color E B light_id hue brightness saturation w =
           (Inl (InvalidHue hue),
            w\<lparr>bridge_error_log := bridge_error_log w @ [Raised (InvalidHue hue)]\<rparr>)
    else if \<not> (0 \<le> num_value brightness \<and> num_value brightness \<le> 254)
    then set_light_color E B light_id hue brightness saturation w =
           (Inl (InvalidBrightness brightness),
            w\<lparr>bridge_error_log := bridge_error_log w @ [Raised (InvalidBrightness brightness)]\<rparr>)
    else if \<not> (0 \<le> num_value saturation \<and> num_value saturation \<le> 254)
    then set_light_color E B light_id hue brightness saturation w =
           (Inl (InvalidSaturation saturation),
            w\<lparr>bridge_error_log := bridge_error_log w @ [Raised (InvalidSaturation saturation)]\<rparr>)
    else light_id \<noteq> [] \<longrightarrow>
         requests (snd (set_light_color E B light_id hue brightness saturation w)) =
           requests w @
             [(''http://'' @ ip B @ ''/api/'' @ token B @ ''/lights/'' @ light_id @ ''/state'',
               JObject [(''hue'', json_of_number hue), (''bri'', json_of_number brightness),
                        (''sat'', json_of_number saturation)])])"
proof (cases "in_range hue 65535 \<and> in_range brightness 254 \<and> in_range saturation 254")
  case True
  then show ?thesis
    using set_light_color_requests[of hue brightness saturation light_id E B w]
    by (simp add: in_range_def color_data_def)
next
  case False
  then show ?thesis
    using set_light_color_rejects[of E B light_id hue brightness saturation w]
    by (auto simp add: in_range_def)
qed

theorem set_light_color_validates_before_transport_witness:
  "set_light_color calm_env hub ''1'' (IntNum 70000) (IntNum 100) (IntNum 100) empty_world =
     (Inl (InvalidHue (IntNum 70000)),
      empty_world\<lparr>bridge_error_log := [Raised (InvalidHue (IntNum 70000))]\<rparr>)
   \<and> set_light_color calm_env hub ''1'' (IntNum 100) (IntNum 255) (IntNum 100) empty_world =
     (Inl (InvalidBrightness (IntNum 255)),
      empty_world\<lparr>bridge_error_log := [Raised (InvalidBrightness (IntNum 255))]\<rparr>)
   \<and> set_light_color calm_env hub ''1'' (IntNum 100) (IntNum 100) (IntNum (- 1)) empty_world =
     (Inl (InvalidSaturation (IntNum (- 1))),
      empty_world\<lparr>bridge_error_log := [Raised (InvalidSaturation (IntNum (- 1)))]\<rparr>)
   \<and> requests (snd (set_light_color calm_env hub ''1'' (IntNum 65535) (IntNum 0) (IntNum 254) empty_world)) =
       [(''http://10.0.0.2/api/t/lights/1/state'',
         JObject [(''hue'', JInt 65535), (''bri'', JInt 0), (''sat'', JInt 254)])]"
proof -
  have e: "bridge_error_log empty_world = []" "requests empty_world = []"
    by (simp_all add: empty_world_def)
  show ?thesis
    using set_light_color_validates_before_transport[where hue="IntNum 70000" and brightness="IntNum 100"
        and saturation="IntNum 100" and E=calm_env and B=hub and light_id="''1''" and w=empty_world]
      set_light_color_validates_before_transport[where hue="IntNum 100" and brightness="IntNum 255"
        and saturation="IntNum 100" and E=calm_env and B=hub and light_id="''1''" and w=empty_world]
      set_light_color_validates_before_transport[where hue="IntNum 100" and brightness="IntNum 100"
        and saturation="IntNum (- 1)" and E=calm_env and B=hub and light_id="''1''" and w=empty_world]
      set_light_color_validates_before_transport[where hue="IntNum 65535" and brightness="IntNum 0"
        and saturation="IntNum 254" and E=calm_env and B=hub and light_id="''1''" and w=empty_world]
      e
    by (simp add: hub_def)
qed

text \<open>
  C10. The colour validation tests the range only. Called with floats of any value
  within 0..65535 and 0..254, integral or not, and a light id (a non-empty string),
  \<open>validate_color_values\<close> raises nothing and logs nothing, and \<open>set_light_color\<close>
  makes one PUT whose body carries these floats as they are.
\<close>

theorem set_light_color_sends_fractions:
  assumes "0 \<le> h \<and> h \<le> 65535" and "0 \<le> b \<and> b \<le> 254" and "0 \<le> s \<and> s \<le> 254"
    and "light_id \<noteq> []"
  shows "validate_color_values (FloatNum h) (FloatNum b) (FloatNum s) w = (Inr (), w)
    \<and> requests (snd (set_light_color E B light_id (FloatNum h) (FloatNum b) (FloatNum s) w)) =
        requests w @
          [(''http://'' @ ip B @ ''/api/'' @ token B @ ''/lights/'' @ light_id @ ''/state'',
            JObject [(''hue'', JFloat h), (''bri'', JFloat b), (''sat'', JFloat s)])]"
proof -
  have r: "in_range (FloatNum h) 65535" "in_range (FloatNum b) 254" "in_range (FloatNum s) 254"
    using assms by (simp_all add: in_range_def)
  show ?thesis
    using validate_color_values_ok[OF r, of w]
      set_light_color_requests[OF r assms(4), of E B w]
    by (simp add: color_data_def)
qed

theorem set_light_color_sends_fractions_witness:
  "validate_color_values (FloatNum (1 / 2)) (FloatNum (3 / 2)) (FloatNum (5 / 2)) empty_world =
     (Inr (), empty_world)
   \<and> requests (snd (set_light_color calm_env hub ''2'' (FloatNum (1 / 2)) (FloatNum (3 / 2))
        (FloatNum (5 / 2)) empty_world)) =
       [(''http://10.0.0.2/api/t/lights/2/state'',
         JObject [(''hue'', JFloat (1 / 2)), (''bri'', JFloat (3 / 2)), (''sat'', JFloat (5 / 2))])]"
proof -
  have e: "requests empty_world = []"
    by (simp add: empty_world_def)
  show ?thesis
    using set_light_color_sends_fractions[where h="1 / 2" and b="3 / 2" and s="5 / 2"
        and light_id="''2''" and w=empty_world and E=calm_env and B=hub] e
    by (simp add: hub_def)
qed

subsection \<open>Statements that leave an observation alone\<close>

lemma preserves_return [simp]: "preserves f (io_return x)"
  by (simp add: preserves_def io_return_def)

lemma preserves_raise [simp]: "preserves f (io_raise e)"
  by (simp add: preserves_def io_raise_def)

lemma preserves_of [simp]: "preserves f (io_of r)"
  by (simp add: preserves_def io_of_def)

lemma preserves_bind:
  assumes "preserves f m" and "\<And>x. preserves f (g x)"
  shows "preserves f (io_bind m g)"
proof -
  have "f (snd (io_bind m g w)) = f w" for w
  proof (cases "m w")
    case (Pair r w')
    have "f w' = f w" using assms(1) Pair by (metis preserves_def snd_conv)
    then show ?thesis using assms(2) Pair
      by (cases r) (simp_all add: io_bind_def preserves_def)
  qed
  then show ?thesis by (simp add: preserves_def)
qed

lemma preserves_try:
  assumes "preserves f m" and "\<And>e. preserves f (h e)"
  shows "preserves f (io_try m h)"
proof -
  have "f (snd (io_try m h w)) = f w" for w
  proof (cases "m w")
    case (Pair r w')
    have "f w' = f w" using assms(1) Pair by (metis preserves_def snd_conv)
    then show ?thesis using assms(2) Pair
      by (cases r) (simp_all add: io_try_def preserves_def)
  qed
  then show ?thesis by (simp add: preserves_def)
qed

lemma preserves_run_all:
  assumes "\<And>t. t \<in> set ts \<Longrightarrow> preserves f t"
  shows "f (snd (run_all ts w)) = f w"
  using assms
proof (induction ts arbitrary: w)
  case Nil
  show ?case by simp
next
  case (Cons t ts)
  obtain r w' where t: "t w = (r, w')" by (cases "t w")
  have "preserves f t" using Cons.prems by simp
  then have "f w' = f w" using t by (metis preserves_def snd_conv)
  moreover have "f (snd (run_all ts w')) = f w'" using Cons by simp
  moreover obtain rs w'' where "run_all ts w' = (rs, w'')" by (cases "run_all ts w'")
  ultimately show ?case using t by simp
qed

lemma preserves_gather:
  assumes "\<And>t. t \<in> set ts \<Longrightarrow> preserves f t"
  shows "preserves f (gather ts)"
proof -
  have "f (snd (gather ts w)) = f w" for w
  proof -
    obtain rs w' where r: "run_all ts w = (rs, w')" by (cases "run_all ts w")
    then have "f w' = f w" using preserves_run_all[of ts f w] assms by simp
    then show ?thesis using r by (cases "first_exn rs") (simp_all add: gather_def)
  qed
  then show ?thesis by (simp add: preserves_def)
qed

lemma preserves_http_log_error:
  "(\<And>w v. f (w\<lparr>http_error_log := v\<rparr>) = f w) \<Longrightarrow> preserves f (http_log_error m)"
  by (simp add: preserves_def http_log_error_def)

lemma preserves_bridge_log_error:
  "(\<And>w v. f (w\<lparr>bridge_error_log := v\<rparr>) = f w) \<Longrightarrow> preserves f (bridge_log_error m)"
  by (simp add: preserves_def bridge_log_error_def)

lemma preserves_animation_log_error:
  "(\<And>w v. f (w\<lparr>error_log := v\<rparr>) = f w) \<Longrightarrow> preserves f (animation_log_error m)"
  by (simp add: preserves_def animation_log_error_def)

lemma preserves_print:
  "(\<And>w v. f (w\<lparr>stdout := v\<rparr>) = f w) \<Longrightarrow> preserves f (print m)"
  by (simp add: preserves_def print_def)

lemma preserves_session_put:
  "(\<And>w v. f (w\<lparr>requests := v\<rparr>) = f w) \<Longrightarrow> preserves f (session_put E url data)"
  by (simp add: preserves_def session_put_def)

lemma preserves_randint:
  "(\<And>w v. f (w\<lparr>draws := v\<rparr>) = f w) \<Longrightarrow> preserves f (randint E a b)"
  by (simp add: preserves_def randint_def)

lemma preserves_choice:
  "(\<And>w v. f (w\<lparr>draws := v\<rparr>) = f w) \<Longrightarrow> preserves f (choice E xs)"
  by (simp add: preserves_def choice_def)

lemma preserves_put:
  assumes "\<And>w v. f (w\<lparr>http_error_log := v\<rparr>) = f w" and "\<And>w v. f (w\<lparr>requests := v\<rparr>) = f w"
  shows "preserves f (put E url data)"
  unfolding put_def validate_url_def validate_payload_def
  by (intro preserves_bind preserves_http_log_error preserves_session_put assms)
     (auto split: net_outcome.splits intro!: preserves_bind preserves_http_log_error assms)

lemma preserves_get_url:
  assumes "\<And>w v. f (w\<lparr>bridge_error_log := v\<rparr>) = f w"
  shows "preserves f (get_url B light_id)"
  unfolding get_url_def validate_light_id_def
  by (auto intro!: preserves_bind preserves_bridge_log_error assms)

lemma preserves_turn_on_light:
  assumes "\<And>w v. f (w\<lparr>http_error_log := v\<rparr>) = f w" and "\<And>w v. f (w\<lparr>requests := v\<rparr>) = f w"
    and "\<And>w v. f (w\<lparr>bridge_error_log := v\<rparr>) = f w"
  shows "preserves f (turn_on_light E B light_id)"
  unfolding turn_on_light_def
  by (intro preserves_try preserves_bind preserves_get_url preserves_put
        preserves_bridge_log_error preserves_raise assms)

lemma preserves_set_light_color:
  assumes "\<And>w v. f (w\<lparr>http_error_log := v\<rparr>) = f w" and "\<And>w v. f (w\<lparr>requests := v\<rparr>) = f w"
    and "\<And>w v. f (w\<lparr>bridge_error_log := v\<rparr>) = f w"
  shows "preserves f (set_light_color E B light_id hue brightness saturation)"
proof -
  have "preserves f (validate_color_values hue brightness saturation)"
    unfolding validate_color_values_def
    by (auto intro!: preserves_bind preserves_bridge_log_error assms)
  then show ?thesis
    unfolding set_light_color_def
    by (intro preserves_try preserves_bind preserves_get_url preserves_put
          preserves_bridge_log_error preserves_raise assms)
qed

subsection \<open>Random draws\<close>

lemma randint_value_bounds:
  assumes "a \<le> b"
  shows "a \<le> randint_value a b r \<and> randint_value a b r \<le> b"
proof -
  have "0 < nat (b - a + 1)" using assms by simp
  then have "r mod nat (b - a + 1) < nat (b - a + 1)" by (rule mod_less_divisor)
  then have "int (r mod nat (b - a + 1)) < b - a + 1" using assms by linarith
  then show ?thesis by (simp add: randint_value_def)
qed

lemma has_range_bounds:
  assumes "has_range config key lo hi"
  shows "\<exists>mn mx. range_bound config key ''min'' = Inr mn \<and> range_bound config key ''max'' = Inr mx
           \<and> py_index mn = Inr lo \<and> py_index mx = Inr hi"
proof (cases config)
  case (JObject kvs)
  then obtain rng where rng: "map_of kvs key = Some rng"
    using assms by (auto simp add: has_range_def field_def split: option.splits)
  then obtain r where r: "rng = JObject r"
    using assms JObject by (cases rng) (auto simp add: has_range_def field_def)
  show ?thesis
    using assms JObject rng r
    by (auto simp add: has_range_def field_def range_bound_def py_index_def split: option.splits)
qed (use assms in \<open>simp_all add: has_range_def field_def\<close>)

lemma randint_of_range_valid:
  assumes "has_range config key lo hi" and "lo \<le> hi"
  shows "randint_of_range E config key w =
           (Inr (randint_value lo hi (rnd E (draws w))), w\<lparr>draws := Suc (draws w)\<rparr>)"
proof -
  obtain mn mx where "range_bound config key ''min'' = Inr mn" "range_bound config key ''max'' = Inr mx"
      "py_index mn = Inr lo" "py_index mx = Inr hi"
    using has_range_bounds[OF assms(1)] by blast
  then show ?thesis using assms(2)
    by (simp add: randint_of_range_def io_bind_def io_of_def randint_def)
qed

lemma generate_random_state_valid:
  assumes "has_range config ''hue'' hmin hmax" and "hmin \<le> hmax"
    and "has_range config ''bri'' bmin bmax" and "bmin \<le> bmax"
    and "has_range config ''sat'' smin smax" and "smin \<le> smax"
  shows "generate_random_state E config w =
           (Inr \<lparr>st_hue = randint_value hmin hmax (rnd E (draws w)),
                  st_bri = randint_value bmin bmax (rnd E (Suc (draws w))),
                  st_sat = randint_value smin smax (rnd E (Suc (Suc (draws w))))\<rparr>,
            w\<lparr>draws := Suc (Suc (Suc (draws w)))\<rparr>)"
  by (simp add: generate_random_state_def io_bind_def io_return_def
        randint_of_range_valid[OF assms(1,2)] randint_of_range_valid[OF assms(3,4)]
        randint_of_range_valid[OF assms(5,6)])

text \<open>
  C2. For every preset whose hue, bri and sat ranges are integer intervals with
  \<open>min \<le> max\<close>, \<open>generate_random_state\<close> returns a state, and its hue, bri and sat lie
  within their ranges, both ends included.
\<close>

theorem generate_random_state_within_ranges:
  assumes "has_range config ''hue'' hmin hmax" and "hmin \<le> hmax"
    and "has_range config ''bri'' bmin bmax" and "bmin \<le> bmax"
    and "has_range config ''sat'' smin smax" and "smin \<le> smax"
  shows "\<exists>state. fst (generate_random_state E config w) = Inr state
           \<and> hmin \<le> st_hue state \<and> st_hue state \<le> hmax
           \<and> bmin \<le> st_bri state \<and> st_bri state \<le> bmax
           \<and> smin \<le> st_sat state \<and> st_sat state \<le> smax"
  using generate_random_state_valid[OF assms, of E w]
    randint_value_bounds[OF assms(2)] randint_value_bounds[OF assms(4)]
    randint_value_bounds[OF assms(6)]
  by simp

theorem generate_random_state_within_ranges_witness:
  "\<exists>state. fst (generate_random_state calm_env pulse empty_world) = Inr state
       \<and> 0 \<le> st_hue state \<and> st_hue state \<le> 100
       \<and> 100 \<le> st_bri state \<and> st_bri state \<le> 150
       \<and> 200 \<le> st_sat state \<and> st_sat state \<le> 254"
proof -
  have "has_range pulse ''hue'' 0 100" "has_range pulse ''bri'' 100 150" "has_range pulse ''sat'' 200 254"
    by (simp_all add: has_range_def field_def pulse_def)
  then show ?thesis
    using generate_random_state_within_ranges[where config=pulse and hmin=0 and hmax=100
        and bmin=100 and bmax=150 and smin=200 and smax=254 and E=calm_env and w=empty_world]
    by simp
qed

subsection \<open>The tick loop\<close>

lemma io_bind_Inr:
  assumes "io_bind m g w = (Inr y, w')"
  obtains x w1 where "m w = (Inr x, w1)" and "g x w1 = (Inr y, w')"
proof (cases "m w")
  case (Pair r w1)
  then show ?thesis using assms that by (cases r) (simp_all add: io_bind_def)
qed

lemma io_bind_Inl:
  assumes "io_bind m g w = (Inl e, w')"
  obtains "m w = (Inl e, w')" | x w1 where "m w = (Inr x, w1)" and "g x w1 = (Inl e, w')"
proof (cases "m w")
  case (Pair r w1)
  then show ?thesis using assms that by (cases r) (simp_all add: io_bind_def)
qed

lemma preserved:
  assumes "preserves f m" and "m w = (r, w')"
  shows "f w' = f w"
  using assms by (metis preserves_def snd_conv)

lemma preserves_generate_random_state:
  assumes "\<And>w v. f (w\<lparr>draws := v\<rparr>) = f w"
  shows "preserves f (generate_random_state E config)"
  unfolding generate_random_state_def randint_of_range_def
  by (intro preserves_bind preserves_of preserves_randint preserves_return assms)

lemma create_tasks_total: "\<exists>tasks. fst (create_tasks E A config ls w) = Inr tasks"
proof (induction ls arbitrary: w)
  case Nil
  show ?case by (simp add: io_return_def)
next
  case (Cons l ls)
  let ?body = "io_try
          (io_bind (generate_random_state E config) (\<lambda>state.
           io_bind (debug_request l state) (\<lambda>_.
             io_return [set_light_color E (bridge A) l
                          (IntNum (st_hue state)) (IntNum (st_bri state)) (IntNum (st_sat state))])))
          (\<lambda>e. io_bind (animation_log_error (FailedUpdate l e)) (\<lambda>_. io_return []))"
  have "\<exists>new. fst (?body w) = Inr new"
    by (cases "generate_random_state E config w")
       (auto simp add: io_try_def io_bind_def io_return_def debug_request_def print_def
          animation_log_error_def split: sum.splits)
  then obtain new w1 where b: "?body w = (Inr new, w1)" by (cases "?body w") auto
  obtain tasks where "fst (create_tasks E A config ls w1) = Inr tasks" using Cons.IH by blast
  then obtain w2 where "create_tasks E A config ls w1 = (Inr tasks, w2)"
    by (cases "create_tasks E A config ls w1") auto
  then show ?case using b by (simp add: io_bind_def io_return_def)
qed

lemma preserves_create_tasks:
  assumes "\<And>w v. f (w\<lparr>draws := v\<rparr>) = f w" and "\<And>w v. f (w\<lparr>stdout := v\<rparr>) = f w"
    and "\<And>w v. f (w\<lparr>error_log := v\<rparr>) = f w"
  shows "preserves f (create_tasks E A config ls)"
proof (induction ls)
  case Nil
  show ?case by simp
next
  case (Cons l ls)
  show ?case
    unfolding create_tasks.simps debug_request_def
    by (intro preserves_bind preserves_try preserves_generate_random_state preserves_print
          preserves_animation_log_error preserves_return Cons.IH assms)
qed

lemma created_tasks_preserve:
  assumes "\<And>w v. f (w\<lparr>http_error_log := v\<rparr>) = f w" and "\<And>w v. f (w\<lparr>requests := v\<rparr>) = f w"
    and "\<And>w v. f (w\<lparr>bridge_error_log := v\<rparr>) = f w"
    and "create_tasks E A config ls w = (Inr tasks, w')" and "t \<in> set tasks"
  shows "preserves f t"
  using assms(4,5)
proof (induction ls arbitrary: w tasks w')
  case Nil
  then show ?case by (simp add: io_return_def)
next
  case (Cons l ls)
  let ?body = "io_try
          (io_bind (generate_random_state E config) (\<lambda>state.
           io_bind (debug_request l state) (\<lambda>_.
             io_return [set_light_color E (bridge A) l
                          (IntNum (st_hue state)) (IntNum (st_bri state)) (IntNum (st_sat state))])))
          (\<lambda>e. io_bind (animation_log_error (FailedUpdate l e)) (\<lambda>_. io_return []))"
  from Cons.prems(1) obtain new w1 where b: "?body w = (Inr new, w1)"
    and rest: "io_bind (create_tasks E A config ls) (\<lambda>tasks. io_return (new @ tasks)) w1 = (Inr tasks, w')"
    unfolding create_tasks.simps by (rule io_bind_Inr)
  from rest obtain more w2 where m: "create_tasks E A config ls w1 = (Inr more, w2)"
    and "io_return (new @ more) w2 = (Inr tasks, w')"
    by (rule io_bind_Inr)
  then have tasks: "tasks = new @ more" by (simp add: io_return_def)
  have p: "preserves f (set_light_color E (bridge A) l h b s)" for h b s
    by (intro preserves_set_light_color assms(1,2,3))
  have "\<forall>t \<in> set new. preserves f t"
    using b p
    by (cases "generate_random_state E config w")
       (auto simp add: io_try_def io_bind_def io_return_def debug_request_def print_def
          animation_log_error_def split: sum.splits)
  then show ?case using Cons.IH[OF m] Cons.prems(2) tasks by auto
qed

lemma gather_pushes_keep_sleeps:
  assumes "create_tasks E A config ls w = (Inr tasks, w1)" and "gather tasks w1 = (r, w2)"
  shows "sleeps w2 = sleeps w1"
proof -
  have "preserves sleeps t" if "t \<in> set tasks" for t
    by (rule created_tasks_preserve[OF _ _ _ assms(1) that]) simp_all
  then have "preserves sleeps (gather tasks)" by (rule preserves_gather)
  then show ?thesis using assms(2) by (rule preserved)
qed

lemma create_tasks_Inr:
  obtains tasks w1 where "create_tasks E A config ls w = (Inr tasks, w1)"
  using create_tasks_total[of E A config ls w]
  by (cases "create_tasks E A config ls w") auto

lemma tick_sleeps:
  assumes "tick E A config w = (r, w')"
  shows "case r of Inl e \<Rightarrow> sleeps w' = sleeps w
         | Inr u \<Rightarrow> \<exists>d. sleep_seconds config = Inr d \<and> sleeps w' = sleeps w @ [d]"
proof -
  obtain tasks w1 where c: "create_tasks E A config (lights A) w = (Inr tasks, w1)"
    by (rule create_tasks_Inr)
  have s1: "sleeps w1 = sleeps w"
    by (rule preserved[OF preserves_create_tasks c]) simp_all
  obtain r2 w2 where g: "gather tasks w1 = (r2, w2)" by (cases "gather tasks w1")
  have s2: "sleeps w2 = sleeps w1" using gather_pushes_keep_sleeps[OF c g] .
  show ?thesis
    using assms c g s1 s2
    by (cases r2; cases "sleep_seconds config")
       (auto simp add: tick_def io_bind_def io_of_def asyncio_sleep_def)
qed

lemma tick_loop_sleeps:
  assumes "tick_loop E A config n w = (r, w')"
  shows "\<exists>j \<le> n. (r = Inr () \<longrightarrow> j = n) \<and> length (sleeps w') = length (sleeps w) + j
           \<and> (\<forall>d. sleep_seconds config = Inr d \<longrightarrow> sleeps w' = sleeps w @ replicate j d)"
  using assms
proof (induction n arbitrary: w)
  case 0
  then show ?case by (auto simp add: io_return_def)
next
  case (Suc n)
  obtain r1 w1 where t: "tick E A config w = (r1, w1)" by (cases "tick E A config w")
  show ?case
  proof (cases r1)
    case (Inl e)
    then have "sleeps w1 = sleeps w" using tick_sleeps[OF t] by simp
    moreover have "r = Inl e" "w' = w1" using Suc.prems t Inl by (simp_all add: io_bind_def)
    ultimately show ?thesis by (intro exI[of _ 0]) simp
  next
    case (Inr u)
    then obtain d where d: "sleep_seconds config = Inr d" "sleeps w1 = sleeps w @ [d]"
      using tick_sleeps[OF t] by auto
    have "tick_loop E A config n w1 = (r, w')" using Suc.prems t Inr by (simp add: io_bind_def)
    then obtain j where j: "j \<le> n" "r = Inr () \<longrightarrow> j = n"
        "length (sleeps w') = length (sleeps w1) + j"
        "\<forall>d. sleep_seconds config = Inr d \<longrightarrow> sleeps w' = sleeps w1 @ replicate j d"
      using Suc.IH by blast
    show ?thesis using j d by (intro exI[of _ "Suc j"]) (simp add: replicate_app_Cons_same)
  qed
qed

lemma randint_value_uniform:
  assumes "a \<le> b"
  shows "bij_betw (randint_value a b) {0..<nat (b - a + 1)} {a..b}"
  by (rule bij_betw_byWitness[where f' = "\<lambda>v. nat (v - a)"])
     (use assms in \<open>auto simp add: randint_value_def\<close>)

lemma load_effect_completed:
  assumes "load_effect E A w = (Inr u, w')"
  shows "minimum_duration A \<le> maximum_duration A
           \<and> length (sleeps w') =
               length (sleeps w)
                 + nat (randint_value (minimum_duration A) (maximum_duration A) (rnd E (Suc (draws w))))"
proof -
  from assms obtain x1 w1 where g: "gather (map (turn_on_light E (bridge A)) (lights A)) w = (Inr x1, w1)"
    and k1: "io_bind (io_of (py_keys (animations A))) (\<lambda>names.
     io_bind (choice E names) (\<lambda>animation_name.
     io_bind (io_of (py_getitem (animations A) animation_name)) (\<lambda>config.
     io_bind (randint E (minimum_duration A) (maximum_duration A)) (\<lambda>duration.
       tick_loop E A config (nat duration))))) w1 = (Inr u, w')"
    unfolding load_effect_def by (rule io_bind_Inr)
  from k1 obtain names w2 where n: "io_of (py_keys (animations A)) w1 = (Inr names, w2)"
    and k2: "io_bind (choice E names) (\<lambda>animation_name.
     io_bind (io_of (py_getitem (animations A) animation_name)) (\<lambda>config.
     io_bind (randint E (minimum_duration A) (maximum_duration A)) (\<lambda>duration.
       tick_loop E A config (nat duration)))) w2 = (Inr u, w')"
    by (rule io_bind_Inr)
  from k2 obtain name w3 where c: "choice E names w2 = (Inr name, w3)"
    and k3: "io_bind (io_of (py_getitem (animations A) name)) (\<lambda>config.
     io_bind (randint E (minimum_duration A) (maximum_duration A)) (\<lambda>duration.
       tick_loop E A config (nat duration))) w3 = (Inr u, w')"
    by (rule io_bind_Inr)
  from k3 obtain config w4 where cf: "io_of (py_getitem (animations A) name) w3 = (Inr config, w4)"
    and k4: "io_bind (randint E (minimum_duration A) (maximum_duration A)) (\<lambda>duration.
       tick_loop E A config (nat duration)) w4 = (Inr u, w')"
    by (rule io_bind_Inr)
  from k4 obtain duration w5 where d: "randint E (minimum_duration A) (maximum_duration A) w4 = (Inr duration, w5)"
    and l: "tick_loop E A config (nat duration) w5 = (Inr u, w')"
    by (rule io_bind_Inr)
  have s1: "sleeps w1 = sleeps w"
    by (rule preserved[OF preserves_gather g]) (auto intro!: preserves_turn_on_light)
  have s2: "sleeps w2 = sleeps w1" using n by (simp add: io_of_def)
  have s3: "sleeps w3 = sleeps w2" by (rule preserved[OF preserves_choice c]) simp
  have s4: "sleeps w4 = sleeps w3" using cf by (simp add: io_of_def)
  have s5: "sleeps w5 = sleeps w4" by (rule preserved[OF preserves_randint d]) simp
  have ok: "minimum_duration A \<le> maximum_duration A"
    and dur: "duration = randint_value (minimum_duration A) (maximum_duration A) (rnd E (draws w4))"
    using d by (auto simp add: randint_def split: if_splits)
  have d1: "draws w1 = draws w"
    by (rule preserved[OF preserves_gather g]) (auto intro!: preserves_turn_on_light)
  have d2: "draws w2 = draws w1" using n by (simp add: io_of_def)
  have d3: "draws w3 = Suc (draws w2)" using c by (auto simp add: choice_def split: if_splits)
  have d4: "draws w4 = draws w3" using cf by (simp add: io_of_def)
  have "length (sleeps w') = length (sleeps w5) + nat duration"
    using tick_loop_sleeps[OF l] by auto
  then show ?thesis using s1 s2 s3 s4 s5 d1 d2 d3 d4 ok dur by auto
qed

text \<open>
  C5. A run that ends without an exception has executed as many ticks (each ends with
  one sleep) as the duration it drew. With both bounds \<open>k\<close> that is \<open>k\<close> ticks (none
  for a negative \<open>k\<close>, where \<^verbatim>\<open>range(k)\<close> is empty). In general the duration is
  \<open>randint\<close> of the two bounds at the second raw draw of the run (the first one picks
  the preset): it lies between the bounds, both included, and every value between them
  is the image of exactly one raw draw below the width, so a uniform raw draw gives a
  uniform duration. Unset, the bounds are 20 and 200.
\<close>

theorem tick_count_is_the_drawn_duration:
  assumes "load_effect E A w = (Inr (), w')"
  shows "(minimum_duration A = k \<and> maximum_duration A = k \<longrightarrow>
            length (sleeps w') = length (sleeps w) + nat k)
       \<and> length (sleeps w') =
           length (sleeps w)
             + nat (randint_value (minimum_duration A) (maximum_duration A) (rnd E (Suc (draws w))))
       \<and> minimum_duration A
           \<le> randint_value (minimum_duration A) (maximum_duration A) (rnd E (Suc (draws w)))
       \<and> randint_value (minimum_duration A) (maximum_duration A) (rnd E (Suc (draws w)))
           \<le> maximum_duration A
       \<and> bij_betw (randint_value (minimum_duration A) (maximum_duration A))
            {0..<nat (maximum_duration A - minimum_duration A + 1)}
            {minimum_duration A..maximum_duration A}
       \<and> (Animation_init B LIGHTS None None content = Inr A' \<longrightarrow>
            minimum_duration A' = 20 \<and> maximum_duration A' = 200)"
proof -
  let ?r = "rnd E (Suc (draws w))"
  have le: "minimum_duration A \<le> maximum_duration A"
    and n: "length (sleeps w') =
              length (sleeps w) + nat (randint_value (minimum_duration A) (maximum_duration A) ?r)"
    using load_effect_completed[OF assms] by simp_all
  have same: "minimum_duration A = k \<and> maximum_duration A = k \<longrightarrow>
            length (sleeps w') = length (sleeps w) + nat k"
    using n by (auto simp add: randint_value_def)
  have init: "Animation_init B LIGHTS None None content = Inr A' \<longrightarrow>
            minimum_duration A' = 20 \<and> maximum_duration A' = 200"
    by (cases LIGHTS; cases "load_and_validate_animations content")
       (auto simp add: Animation_init_def)
  show ?thesis
    using same n randint_value_bounds[OF le, of ?r] randint_value_uniform[OF le] init by blast
qed

subsection \<open>Runs in which every request is answered\<close>

lemma put_answered:
  assumes "\<And>i url body. \<exists>j. net E i url body = Responds j"
    and "startswith url ''http://''" and "\<not> invalid_payload data"
  shows "\<exists>j. fst (put E url data w) = Inr j"
proof -
  obtain j where "net E (length (requests w)) url data = Responds j"
    using assms(1) by blast
  then show ?thesis using assms(2,3)
    by (simp add: put_def validate_url_def validate_payload_def io_bind_def io_return_def
          session_put_def)
qed

lemma turn_on_light_answered:
  assumes "\<And>i url body. \<exists>j. net E i url body = Responds j" and "light_id \<noteq> []"
  shows "\<exists>j. fst (turn_on_light E B light_id w) = Inr j"
proof -
  let ?url = "''http://'' @ ip B @ ''/api/'' @ token B @ ''/lights/'' @ light_id @ ''/state''"
  let ?data = "JObject [(''on'', JBool True)]"
  have sw: "startswith ?url ''http://''"
    by (simp add: startswith_def)
  have ok: "\<not> invalid_payload ?data"
    by (simp add: invalid_payload_def)
  obtain j where j: "fst (put E ?url ?data w) = Inr j"
    using put_answered[OF assms(1) sw ok] by blast
  obtain r w' where p: "put E ?url ?data w = (r, w')" by (cases "put E ?url ?data w")
  have "turn_on_light E B light_id w = (Inr j, w')"
    using j p assms(2) by (simp add: turn_on_light_def io_try_def io_bind_def get_url_valid)
  then show ?thesis by simp
qed

lemma set_light_color_answered:
  assumes "\<And>i url body. \<exists>j. net E i url body = Responds j" and "light_id \<noteq> []"
    and "in_range hue 65535" and "in_range brightness 254" and "in_range saturation 254"
  shows "\<exists>j. fst (set_light_color E B light_id hue brightness saturation w) = Inr j"
proof -
  let ?url = "''http://'' @ ip B @ ''/api/'' @ token B @ ''/lights/'' @ light_id @ ''/state''"
  let ?data = "color_data hue brightness saturation"
  have sw: "startswith ?url ''http://''"
    by (simp add: startswith_def)
  obtain j where j: "fst (put E ?url ?data w) = Inr j"
    using put_answered[OF assms(1) sw color_data_valid] by blast
  obtain r w' where p: "put E ?url ?data w = (r, w')" by (cases "put E ?url ?data w")
  have "set_light_color E B light_id hue brightness saturation w = (Inr j, w')"
    using j p assms(2-5)
    by (simp add: set_light_color_rejects io_try_def io_bind_def get_url_valid)
  then show ?thesis by simp
qed

lemma run_all_succeed:
  assumes "\<And>t w. t \<in> set ts \<Longrightarrow> \<exists>x. fst (t w) = Inr x"
  shows "first_exn (fst (run_all ts w)) = None"
  using assms
proof (induction ts arbitrary: w)
  case Nil
  show ?case by simp
next
  case (Cons t ts)
  obtain x where "fst (t w) = Inr x" using Cons.prems by fastforce
  then obtain w' where t: "t w = (Inr x, w')" by (cases "t w") simp
  obtain rs w'' where r: "run_all ts w' = (rs, w'')" by (cases "run_all ts w'")
  have "first_exn (fst (run_all ts w')) = None" using Cons by simp
  then show ?case using t r by simp
qed

lemma gather_succeeds:
  assumes "\<And>t w. t \<in> set ts \<Longrightarrow> \<exists>x. fst (t w) = Inr x"
  shows "\<exists>xs. fst (gather ts w) = Inr xs"
proof -
  obtain rs w' where r: "run_all ts w = (rs, w')" by (cases "run_all ts w")
  then have "first_exn rs = None" using run_all_succeed[of ts w] assms by simp
  then show ?thesis using r by (simp add: gather_def)
qed

lemma created_task_origin:
  assumes "create_tasks E A config ls w = (Inr tasks, w')" and "t \<in> set tasks"
  shows "\<exists>l st w0 w1. l \<in> set ls \<and> generate_random_state E config w0 = (Inr st, w1)
           \<and> t = set_light_color E (bridge A) l
                    (IntNum (st_hue st)) (IntNum (st_bri st)) (IntNum (st_sat st))"
  using assms
proof (induction ls arbitrary: w tasks w')
  case Nil
  then show ?case by (simp add: io_return_def)
next
  case (Cons l ls)
  let ?push = "\<lambda>state. set_light_color E (bridge A) l
                  (IntNum (st_hue state)) (IntNum (st_bri state)) (IntNum (st_sat state))"
  let ?body = "io_try
          (io_bind (generate_random_state E config) (\<lambda>state.
           io_bind (debug_request l state) (\<lambda>_. io_return [?push state])))
          (\<lambda>e. io_bind (animation_log_error (FailedUpdate l e)) (\<lambda>_. io_return []))"
  from Cons.prems(1) obtain new w1 where b: "?body w = (Inr new, w1)"
    and rest: "io_bind (create_tasks E A config ls) (\<lambda>tasks. io_return (new @ tasks)) w1 = (Inr tasks, w')"
    unfolding create_tasks.simps by (rule io_bind_Inr)
  from rest obtain more w2 where m: "create_tasks E A config ls w1 = (Inr more, w2)"
    and "io_return (new @ more) w2 = (Inr tasks, w')"
    by (rule io_bind_Inr)
  then have tasks: "tasks = new @ more" by (simp add: io_return_def)
  obtain r0 wg where g: "generate_random_state E config w = (r0, wg)"
    by (cases "generate_random_state E config w")
  show ?case
  proof (cases "t \<in> set new")
    case True
    show ?thesis
    proof (cases r0)
      case (Inl e)
      then have "new = []" using b g
        by (simp add: io_try_def io_bind_def io_return_def animation_log_error_def)
      then show ?thesis using True by simp
    next
      case (Inr st)
      then have "new = [?push st]" using b g
        by (simp add: io_try_def io_bind_def io_return_def debug_request_def print_def)
      then have "t = ?push st" using True by simp
      moreover have "generate_random_state E config w = (Inr st, wg)" using g Inr by simp
      ultimately show ?thesis by (intro exI[of _ l] exI[of _ st] exI[of _ w] exI[of _ wg]) simp
    qed
  next
    case False
    then have "t \<in> set more" using Cons.prems(2) tasks by simp
    then obtain l' st w0 w1' where "l' \<in> set ls" "generate_random_state E config w0 = (Inr st, w1')"
        "t = set_light_color E (bridge A) l'
               (IntNum (st_hue st)) (IntNum (st_bri st)) (IntNum (st_sat st))"
      using Cons.IH[OF m] by blast
    then show ?thesis by (intro exI[of _ l'] exI[of _ st] exI[of _ w0] exI[of _ w1']) simp
  qed
qed

lemma range_within_has_range:
  assumes "range_within config key lo hi"
  obtains a b where "has_range config key a b" and "lo \<le> a" and "a \<le> b" and "b \<le> hi"
  using assms by (auto simp add: range_within_def has_range_def split: option.splits)

lemma sendable_state:
  assumes "sendable_preset config" and "generate_random_state E config w0 = (Inr st, w1)"
  shows "in_range (IntNum (st_hue st)) 65535 \<and> in_range (IntNum (st_bri st)) 254
           \<and> in_range (IntNum (st_sat st)) 254"
proof -
  obtain ha hb where h: "has_range config ''hue'' ha hb" "0 \<le> ha" "ha \<le> hb" "hb \<le> 65535"
    using assms(1) range_within_has_range[of config "''hue''" 0 65535]
    by (auto simp add: sendable_preset_def)
  obtain ba bb where b: "has_range config ''bri'' ba bb" "0 \<le> ba" "ba \<le> bb" "bb \<le> 254"
    using assms(1) range_within_has_range[of config "''bri''" 0 254]
    by (auto simp add: sendable_preset_def)
  obtain sa sb where s: "has_range config ''sat'' sa sb" "0 \<le> sa" "sa \<le> sb" "sb \<le> 254"
    using assms(1) range_within_has_range[of config "''sat''" 0 254]
    by (auto simp add: sendable_preset_def)
  have st: "st = \<lparr>st_hue = randint_value ha hb (rnd E (draws w0)),
                 st_bri = randint_value ba bb (rnd E (Suc (draws w0))),
                 st_sat = randint_value sa sb (rnd E (Suc (Suc (draws w0))))\<rparr>"
    using generate_random_state_valid[OF h(1,3) b(1,3) s(1,3), of E w0] assms(2) by simp
  show ?thesis
    using randint_value_bounds[OF h(3), of "rnd E (draws w0)"]
      randint_value_bounds[OF b(3), of "rnd E (Suc (draws w0))"]
      randint_value_bounds[OF s(3), of "rnd E (Suc (Suc (draws w0)))"]
      h(2,4) b(2,4) s(2,4)
    by (simp add: st in_range_def)
qed

lemma tick_completes:
  assumes "\<And>i url body. \<exists>j. net E i url body = Responds j"
    and "\<forall>l \<in> set (lights A). l \<noteq> []" and "sendable_preset config"
  shows "fst (tick E A config w) = Inr ()"
proof -
  obtain tasks w1 where c: "create_tasks E A config (lights A) w = (Inr tasks, w1)"
    by (rule create_tasks_Inr)
  have "\<exists>x. fst (t w') = Inr x" if mem: "t \<in> set tasks" for t w'
  proof -
    obtain l st w0 w0' where l: "l \<in> set (lights A)"
      and g: "generate_random_state E config w0 = (Inr st, w0')"
      and t: "t = set_light_color E (bridge A) l
                    (IntNum (st_hue st)) (IntNum (st_bri st)) (IntNum (st_sat st))"
      using created_task_origin[OF c mem] by blast
    have "l \<noteq> []" using l assms(2) by simp
    then show ?thesis
      using set_light_color_answered[OF assms(1), of l _ _ _ "bridge A" w'] sendable_state[OF assms(3) g] t
      by simp
  qed
  then obtain xs where "fst (gather tasks w1) = Inr xs" using gather_succeeds[of tasks w1] by blast
  then obtain w2 where g: "gather tasks w1 = (Inr xs, w2)" by (cases "gather tasks w1") simp
  obtain d where d: "sleep_seconds config = Inr d"
    using assms(3) by (cases "sleep_seconds config") (simp_all add: sendable_preset_def)
  show ?thesis
    using c g d by (simp add: tick_def io_bind_def io_of_def asyncio_sleep_def)
qed

lemma tick_loop_completes:
  assumes "\<And>i url body. \<exists>j. net E i url body = Responds j"
    and "\<forall>l \<in> set (lights A). l \<noteq> []" and "sendable_preset config"
  shows "fst (tick_loop E A config n w) = Inr ()"
proof (induction n arbitrary: w)
  case 0
  show ?case by (simp add: io_return_def)
next
  case (Suc n)
  have "fst (tick E A config w) = Inr ()" using tick_completes[OF assms] .
  then obtain w1 where "tick E A config w = (Inr (), w1)" by (cases "tick E A config w") simp
  then show ?case using Suc.IH[of w1] by (simp add: io_bind_def)
qed

lemma load_effect_completes:
  assumes "\<And>i url body. \<exists>j. net E i url body = Responds j"
    and "\<forall>l \<in> set (lights A). l \<noteq> []"
    and "animations A = JObject kvs" and "kvs \<noteq> []"
    and "\<forall>p \<in> snd ` set kvs. sendable_preset p"
    and "minimum_duration A \<le> maximum_duration A"
  shows "fst (load_effect E A w) = Inr ()"
proof -
  have "\<exists>x. fst (t w') = Inr x" if "t \<in> set (map (turn_on_light E (bridge A)) (lights A))" for t w'
    using that assms(2) turn_on_light_answered[OF assms(1)] by auto
  then obtain xs where "fst (gather (map (turn_on_light E (bridge A)) (lights A)) w) = Inr xs"
    using gather_succeeds[of "map (turn_on_light E (bridge A)) (lights A)" w] by blast
  then obtain w1 where g: "gather (map (turn_on_light E (bridge A)) (lights A)) w = (Inr xs, w1)"
    by (cases "gather (map (turn_on_light E (bridge A)) (lights A)) w") simp
  let ?names = "map fst kvs"
  let ?name = "?names ! (rnd E (draws w1) mod length ?names)"
  have names: "?names \<noteq> []" using assms(4) by simp
  then have "?name \<in> set ?names" by simp
  then obtain config where cfg: "map_of kvs ?name = Some config"
    by (metis domD dom_map_of_conv_image_fst set_map)
  then have "config \<in> snd ` set kvs" by (metis image_eqI map_of_SomeD snd_conv)
  then have "sendable_preset config" using assms(5) by blast
  then have l: "fst (tick_loop E A config n w') = Inr ()" for n w'
    using tick_loop_completes[OF assms(1,2)] by simp
  show ?thesis
    using g names cfg assms(3,6) l
    by (simp add: load_effect_def io_bind_def io_of_def py_keys_def choice_def randint_def)
qed

lemma float_bound_above_two: "(2::rat) \<le> 2 ^ 1024 - 2 ^ 970"
proof -
  have split: "(2::rat) ^ 1024 = 2 ^ 970 * 2 ^ 54"
    by (simp only: power_add[symmetric]) simp
  have "(2::rat) ^ 1024 - 2 ^ 970 = 2 ^ 970 * (2 ^ 54 - 1)"
    by (simp only: split right_diff_distrib mult_1_right)
  moreover have "(1::rat) \<le> 2 ^ 970" by (rule one_le_power) simp
  moreover have "(2::rat) \<le> 2 ^ 54 - 1" by simp
  ultimately have "(1::rat) * 2 \<le> 2 ^ 1024 - 2 ^ 970"
    by (simp only: mult_mono zero_le_one zero_le_numeral)
  then show ?thesis by (simp only: mult_1_left)
qed

lemma small_quotient_fits:
  assumes "\<bar>q\<bar> \<le> 1"
  shows "\<not> float_overflow q"
proof -
  define B :: rat where "B = 2 ^ 1024 - 2 ^ 970"
  have "2 \<le> B" unfolding B_def by (rule float_bound_above_two)
  then have "\<not> B \<le> \<bar>q\<bar>" using assms by linarith
  then show ?thesis unfolding float_overflow_def B_def .
qed

lemma pulse_sendable: "sendable_preset pulse"
  by (simp add: sendable_preset_def range_within_def field_def pulse_def sleep_seconds_def
        range_bound_def small_quotient_fits)

lemma calm_env_answers: "\<exists>j. net calm_env i url body = Responds j"
  by (simp add: calm_env_def)

lemma pulse_show_completes: "fst (load_effect calm_env pulse_show empty_world) = Inr ()"
  by (rule load_effect_completes[where kvs="[(''pulse'', pulse)]"])
     (simp_all add: calm_env_answers pulse_sendable pulse_show_def)

lemma lively_env_answers: "\<exists>j. net lively_env i url body = Responds j"
  by (simp add: lively_env_def)

lemma default_show_completes: "fst (load_effect lively_env default_show empty_world) = Inr ()"
  by (rule load_effect_completes[where kvs="[(''pulse'', pulse)]"])
     (simp_all add: lively_env_answers pulse_sendable default_show_def)

lemma default_show_init:
  "Animation_init hub (Some ''1|2'') None None (Parsed (JObject [(''pulse'', pulse)])) =
     Inr default_show"
proof -
  have "\<not> isl (check_items [(''pulse'', pulse)])"
    using check_items_iff[of "[(''pulse'', pulse)]"] pulse_no_violation by simp
  then have "load_and_validate_animations (Parsed (JObject [(''pulse'', pulse)])) =
               Inr (JObject [(''pulse'', pulse)])"
    by (cases "check_items [(''pulse'', pulse)]") simp_all
  then show ?thesis by (simp add: Animation_init_def default_show_def)
qed

theorem tick_count_is_the_drawn_duration_witness:
  "length (sleeps (snd (load_effect calm_env pulse_show empty_world))) = 3
   \<and> length (sleeps (snd (load_effect lively_env default_show empty_world))) = 31
   \<and> Animation_init hub (Some ''1|2'') None None (Parsed (JObject [(''pulse'', pulse)])) =
       Inr default_show
   \<and> minimum_duration default_show = 20 \<and> maximum_duration default_show = 200
   \<and> bij_betw (randint_value 20 200) {0..<181} {20..200}"
proof -
  have run: "load_effect calm_env pulse_show empty_world =
               (Inr (), snd (load_effect calm_env pulse_show empty_world))"
    using pulse_show_completes by (simp add: prod_eq_iff)
  have run': "load_effect lively_env default_show empty_world =
               (Inr (), snd (load_effect lively_env default_show empty_world))"
    using default_show_completes by (simp add: prod_eq_iff)
  have e: "sleeps empty_world = []" "draws empty_world = 0"
    "minimum_duration pulse_show = 3" "maximum_duration pulse_show = 3"
    by (simp_all add: empty_world_def pulse_show_def)
  have r: "rnd lively_env (Suc 0) = 11" by (simp add: lively_env_def)
  have v: "randint_value 20 200 11 = 31" by (simp add: randint_value_def)
  have three: "length (sleeps (snd (load_effect calm_env pulse_show empty_world))) = 3"
    using tick_count_is_the_drawn_duration[OF run, where k=3] e by simp
  have thirty_one: "length (sleeps (snd (load_effect lively_env default_show empty_world))) = 31
      \<and> bij_betw (randint_value 20 200) {0..<181} {20..200}
      \<and> minimum_duration default_show = 20 \<and> maximum_duration default_show = 200"
    using tick_count_is_the_drawn_duration[OF run', where B=hub and LIGHTS="Some ''1|2''"
        and content="Parsed (JObject [(''pulse'', pulse)])" and A'=default_show]
      default_show_init e r v
    by (simp add: default_show_def)
  show ?thesis using three thirty_one default_show_init by simp
qed

subsection \<open>The speed range at run time\<close>

lemma range_bound_set_speed_max:
  assumes "key \<noteq> ''speed'' \<or> bound \<noteq> ''max''"
  shows "range_bound (set_speed_max x config) key bound = range_bound config key bound"
proof (cases config)
  case (JObject kvs)
  show ?thesis
  proof (cases "map_of kvs ''speed''")
    case None
    then show ?thesis using JObject by (simp add: set_speed_max_def)
  next
    case (Some rng)
    show ?thesis
    proof (cases rng)
      case (JObject r)
      then show ?thesis
        using assms Some \<open>config = JObject kvs\<close>
        by (auto simp add: set_speed_max_def range_bound_def update_conv')
    qed (use Some \<open>config = JObject kvs\<close> in \<open>simp_all add: set_speed_max_def\<close>)
  qed
qed (simp_all add: set_speed_max_def)

lemma generate_random_state_set_speed_max:
  "generate_random_state E (set_speed_max x config) = generate_random_state E config"
  by (simp add: generate_random_state_def randint_of_range_def range_bound_set_speed_max)

lemma sleep_seconds_set_speed_max: "sleep_seconds (set_speed_max x config) = sleep_seconds config"
  by (simp add: sleep_seconds_def range_bound_set_speed_max)

lemma create_tasks_set_speed_max:
  "create_tasks E A' (set_speed_max x config) ls = create_tasks E A config ls" if "bridge A' = bridge A"
  using that by (induction ls) (simp_all add: generate_random_state_set_speed_max)

lemma tick_loop_set_speed_max:
  assumes "bridge A' = bridge A" and "lights A' = lights A"
  shows "tick_loop E A' (set_speed_max x config) n = tick_loop E A config n"
proof -
  have "tick E A' (set_speed_max x config) = tick E A config"
    using assms
    by (simp add: tick_def create_tasks_set_speed_max sleep_seconds_set_speed_max)
  then show ?thesis by (induction n) simp_all
qed

lemma map_of_map_values:
  "map_of (map (\<lambda>(k, v). (k, h k v)) kvs) k = map_option (h k) (map_of kvs k)"
  by (induction kvs) auto

lemma load_effect_set_all_speed_max:
  "load_effect E (A\<lparr>animations := set_all_speed_max f (animations A)\<rparr>) = load_effect E A"
proof (cases "\<exists>kvs. animations A = JObject kvs")
  case False
  then have "set_all_speed_max f (animations A) = animations A"
    by (cases "animations A") (simp_all add: set_all_speed_max_def)
  then show ?thesis by simp
next
  case True
  then obtain kvs where JObject: "animations A = JObject kvs" by blast
  let ?A' = "A\<lparr>animations := set_all_speed_max f (animations A)\<rparr>"
  have tl: "tick_loop E ?A' (set_speed_max x c) n = tick_loop E A c n" for x c n
    by (rule tick_loop_set_speed_max) simp_all
  have keys: "py_keys (animations ?A') = py_keys (animations A)"
    using JObject by (simp add: set_all_speed_max_def py_keys_def comp_def case_prod_unfold)
  have item: "py_getitem (animations ?A') name =
                and_then (py_getitem (animations A) name) (\<lambda>c. Inr (set_speed_max (f name) c))" for name
    using JObject
    by (cases "map_of kvs name") (simp_all add: set_all_speed_max_def map_of_map_values)
  show ?thesis
  proof
    fix w
    obtain r1 w1 where g: "gather (map (turn_on_light E (bridge A)) (lights A)) w = (r1, w1)"
      by (cases "gather (map (turn_on_light E (bridge A)) (lights A)) w")
    show "load_effect E ?A' w = load_effect E A w"
    proof (cases r1)
      case (Inl e)
      then show ?thesis using g by (simp add: load_effect_def io_bind_def)
    next
      case (Inr xs)
      show ?thesis
      proof (cases "py_keys (animations A)")
        case (Inl e)
        then show ?thesis using g Inr keys by (simp add: load_effect_def io_bind_def io_of_def)
      next
        case names: (Inr names)
        obtain r3 w3 where c: "choice E names w1 = (r3, w3)" by (cases "choice E names w1")
        show ?thesis
        proof (cases r3)
          case (Inl e)
          then show ?thesis using g Inr keys names c
            by (simp add: load_effect_def io_bind_def io_of_def)
        next
          case name: (Inr name)
          show ?thesis
          proof (cases "py_getitem (animations A) name")
            case (Inl e)
            then show ?thesis using g Inr keys names c name item[of name]
              by (simp add: load_effect_def io_bind_def io_of_def)
          next
            case config: (Inr config)
            obtain r5 w5 where d: "randint E (minimum_duration A) (maximum_duration A) w3 = (r5, w5)"
              by (cases "randint E (minimum_duration A) (maximum_duration A) w3")
            show ?thesis using g Inr keys names c name item[of name] config d tl
              by (cases r5) (simp_all add: load_effect_def io_bind_def io_of_def)
          qed
        qed
      qed
    qed
  qed
qed

lemma launch_set_all_speed_max:
  "launch E (A\<lparr>animations := set_all_speed_max f (animations A)\<rparr>) n w = launch E A n w"
  by (induction n arbitrary: w)
     (auto simp add: load_effect_set_all_speed_max split: prod.splits sum.splits)

lemma sleep_seconds_int:
  "range_bound config ''speed'' ''min'' = Inr (JInt m) \<Longrightarrow>
   sleep_seconds config =
     (if float_overflow (of_int m / 1000) then Inl OverflowError else Inr (of_int m / 1000))"
  by (simp add: sleep_seconds_def)

lemma tick_loop_without_sleep:
  assumes "sleep_seconds config = Inl x" and "tick_loop E A config n w = (r, w')"
  shows "sleeps w' = sleeps w \<and> (r = Inr () \<longrightarrow> n = 0)"
proof (cases n)
  case 0
  then show ?thesis using assms(2) by (simp add: io_return_def)
next
  case (Suc k)
  obtain r1 w1 where t: "tick E A config w = (r1, w1)" by (cases "tick E A config w")
  have "\<exists>e. r1 = Inl e" using tick_sleeps[OF t] assms(1) by (cases r1) auto
  then obtain e where e: "r1 = Inl e" by blast
  then have "sleeps w1 = sleeps w" using tick_sleeps[OF t] by simp
  moreover have "r = Inl e" "w' = w1" using assms(2) t e Suc by (simp_all add: io_bind_def)
  ultimately show ?thesis by simp
qed

lemma speed_range_is_validated:
  assumes "field p ''speed'' = Some rng" and "range_violation rng"
  shows "isl (load_and_validate_animations (Parsed (JObject [(name, p)])))"
proof -
  have "preset_violation p"
    using assms by (auto simp add: preset_violation_def required_keys_def)
  then have "isl (check_items [(name, p)])" using check_items_iff[of "[(name, p)]"] by simp
  then show ?thesis by (cases "check_items [(name, p)]") simp_all
qed

text \<open>
  C7. In every tick loop over a preset whose speed \<open>min\<close> is the integer \<open>m\<close>, each
  sleep is \<open>m / 1000\<close> seconds, one per completed tick. The \<open>max\<close> of the speed range has
  no effect at run time: a run, and the whole launch loop, behave the same whatever
  values replace it in the presets. It is validated when the presets are loaded: a speed
  range without \<open>max\<close>, or with a \<open>max\<close> that is not an integer or is below \<open>min\<close>,
  makes the load fail.
\<close>

theorem sleep_depends_on_speed_min_only:
  "(range_bound config ''speed'' ''min'' = Inr (JInt m) \<and> tick_loop E A config n w = (r, w') \<longrightarrow>
      (\<exists>j. j \<le> n \<and> (r = Inr () \<longrightarrow> j = n) \<and> sleeps w' = sleeps w @ replicate j (of_int m / 1000)))
   \<and> load_effect E (A\<lparr>animations := set_all_speed_max f (animations A)\<rparr>) = load_effect E A
   \<and> launch E (A\<lparr>animations := set_all_speed_max f (animations A)\<rparr>) k = launch E A k
   \<and> (field p ''speed'' = Some rng \<and> range_violation rng \<longrightarrow>
        isl (load_and_validate_animations (Parsed (JObject [(name, p)]))))"
proof (intro conjI impI)
  assume a: "range_bound config ''speed'' ''min'' = Inr (JInt m) \<and> tick_loop E A config n w = (r, w')"
  show "\<exists>j. j \<le> n \<and> (r = Inr () \<longrightarrow> j = n) \<and> sleeps w' = sleeps w @ replicate j (of_int m / 1000)"
  proof (cases "float_overflow (of_int m / 1000)")
    case True
    then have "sleep_seconds config = Inl OverflowError" using a by (simp add: sleep_seconds_int)
    then have "sleeps w' = sleeps w \<and> (r = Inr () \<longrightarrow> n = 0)"
      using tick_loop_without_sleep a by blast
    then show ?thesis by (intro exI[of _ 0]) simp
  next
    case False
    then have s: "sleep_seconds config = Inr (of_int m / 1000)" using a by (simp add: sleep_seconds_int)
    obtain j where "j \<le> n" "r = Inr () \<longrightarrow> j = n"
        "\<forall>d. sleep_seconds config = Inr d \<longrightarrow> sleeps w' = sleeps w @ replicate j d"
      using tick_loop_sleeps[of E A config n w r w'] a by blast
    then show ?thesis using s by blast
  qed
next
  show "load_effect E (A\<lparr>animations := set_all_speed_max f (animations A)\<rparr>) = load_effect E A"
    by (rule load_effect_set_all_speed_max)
next
  show "launch E (A\<lparr>animations := set_all_speed_max f (animations A)\<rparr>) k = launch E A k"
    using launch_set_all_speed_max by blast
next
  assume "field p ''speed'' = Some rng \<and> range_violation rng"
  then show "isl (load_and_validate_animations (Parsed (JObject [(name, p)])))"
    using speed_range_is_validated by blast
qed

theorem sleep_depends_on_speed_min_only_witness:
  "sleeps (snd (tick_loop calm_env pulse_show pulse 3 empty_world)) = [1 / 20, 1 / 20, 1 / 20]
   \<and> load_effect calm_env (pulse_show\<lparr>animations := set_all_speed_max (\<lambda>name. JInt 999) (animations pulse_show)\<rparr>)
       = load_effect calm_env pulse_show
   \<and> isl (load_and_validate_animations
        (Parsed (JObject [(''pulse'', JObject [(''speed'', JObject [(''min'', JInt 50)])])])))"
proof -
  have b: "range_bound pulse ''speed'' ''min'' = Inr (JInt 50)"
    by (simp add: range_bound_def pulse_def)
  have "fst (tick_loop calm_env pulse_show pulse 3 empty_world) = Inr ()"
    by (rule tick_loop_completes) (simp_all add: calm_env_answers pulse_sendable pulse_show_def)
  then have run: "tick_loop calm_env pulse_show pulse 3 empty_world =
                    (Inr (), snd (tick_loop calm_env pulse_show pulse 3 empty_world))"
    by (simp add: prod_eq_iff)
  have f: "field (JObject [(''speed'', JObject [(''min'', JInt 50)])]) ''speed'' = Some (JObject [(''min'', JInt 50)])"
    and v: "range_violation (JObject [(''min'', JInt 50)])"
    by (simp_all add: field_def range_violation_def)
  have e: "sleeps empty_world = []" by (simp add: empty_world_def)
  show ?thesis
    using sleep_depends_on_speed_min_only[where config=pulse and m=50 and E=calm_env and A=pulse_show
        and n=3 and w=empty_world and r="Inr ()"
        and w'="snd (tick_loop calm_env pulse_show pulse 3 empty_world)"
        and f="\<lambda>name. JInt 999" and k=0
        and p="JObject [(''speed'', JObject [(''min'', JInt 50)])]" and rng="JObject [(''min'', JInt 50)]"
        and name="''pulse''"]
      b run f v e
    by (simp add: numeral_3_eq_3)
qed

subsection \<open>A run that fails, and the launch loop\<close>

lemma first_exn_Some: "\<exists>r \<in> set rs. isl r \<Longrightarrow> \<exists>e. first_exn rs = Some e"
  by (induction rs rule: first_exn.induct) auto

lemma gather_raises:
  assumes "run_all tasks w = (rs, w')" and "first_exn rs = Some e"
  shows "gather tasks w = (Inl e, w')"
  using assms by (simp add: gather_def)

lemma turn_on_light_log:
  assumes "turn_on_light E B l w = (r, w')"
  shows "\<exists>xs. bridge_error_log w' = bridge_error_log w @ xs
           \<and> (\<forall>e. r = Inl e \<longrightarrow> FailedTurnOn l e \<in> set xs)"
proof (cases "l = []")
  case True
  then have "turn_on_light E B l w =
               (Inl (InvalidLightID l),
                w\<lparr>bridge_error_log := bridge_error_log w @ [Raised (InvalidLightID l), FailedTurnOn l (InvalidLightID l)]\<rparr>)"
    by (simp add: turn_on_light_def io_try_def io_bind_def get_url_def validate_light_id_def
          bridge_log_error_def io_raise_def)
  then show ?thesis using assms by auto
next
  case False
  let ?url = "''http://'' @ ip B @ ''/api/'' @ token B @ ''/lights/'' @ l @ ''/state''"
  let ?data = "JObject [(''on'', JBool True)]"
  obtain r1 w1 where p: "put E ?url ?data w = (r1, w1)" by (cases "put E ?url ?data w")
  have same: "bridge_error_log w1 = bridge_error_log w"
    by (rule preserved[OF preserves_put p]) simp_all
  show ?thesis
  proof (cases r1)
    case (Inl e)
    then have "turn_on_light E B l w = (Inl e, w1\<lparr>bridge_error_log := bridge_error_log w1 @ [FailedTurnOn l e]\<rparr>)"
      using False p
      by (simp add: turn_on_light_def io_try_def io_bind_def get_url_valid bridge_log_error_def io_raise_def)
    then show ?thesis using assms same by auto
  next
    case (Inr j)
    then have "turn_on_light E B l w = (Inr j, w1)"
      using False p by (simp add: turn_on_light_def io_try_def io_bind_def get_url_valid)
    then show ?thesis using assms same by auto
  qed
qed

lemma run_all_turn_on_log:
  assumes "run_all (map (turn_on_light E B) ls) w = (rs, w')"
  shows "(\<exists>xs. bridge_error_log w' = bridge_error_log w @ xs)
       \<and> (\<forall>e. first_exn rs = Some e \<longrightarrow> (\<exists>l \<in> set ls. FailedTurnOn l e \<in> set (bridge_error_log w')))"
  using assms
proof (induction ls arbitrary: w rs w')
  case Nil
  then show ?case by simp
next
  case (Cons l ls)
  obtain r w1 where t: "turn_on_light E B l w = (r, w1)" by (cases "turn_on_light E B l w")
  obtain rs' w2 where rest: "run_all (map (turn_on_light E B) ls) w1 = (rs', w2)"
    by (cases "run_all (map (turn_on_light E B) ls) w1")
  have res: "rs = r # rs'" "w' = w2" using Cons.prems t rest by simp_all
  obtain xs where xs: "bridge_error_log w1 = bridge_error_log w @ xs"
      "\<forall>e. r = Inl e \<longrightarrow> FailedTurnOn l e \<in> set xs"
    using turn_on_light_log[OF t] by blast
  obtain ys where ys: "bridge_error_log w2 = bridge_error_log w1 @ ys"
    and later: "\<forall>e. first_exn rs' = Some e \<longrightarrow> (\<exists>l \<in> set ls. FailedTurnOn l e \<in> set (bridge_error_log w2))"
    using Cons.IH[OF rest] by blast
  have grows: "\<exists>zs. bridge_error_log w' = bridge_error_log w @ zs"
    using xs(1) ys res by simp
  have logged: "\<exists>l' \<in> set (l # ls). FailedTurnOn l' e \<in> set (bridge_error_log w')"
    if "first_exn rs = Some e" for e
  proof (cases r)
    case (Inl e')
    then have "e' = e" using that res by simp
    then have "FailedTurnOn l e \<in> set (bridge_error_log w2)" using xs ys Inl by simp
    then show ?thesis using res by simp
  next
    case (Inr j)
    then have "first_exn rs' = Some e" using that res by simp
    then show ?thesis using later res by auto
  qed
  show ?case using grows logged by blast
qed

lemma launch_Suc:
  "launch E A (Suc n) w =
     (case load_effect E A w of
        (Inl e, w') \<Rightarrow>
          launch E A n (w'\<lparr>error_log := error_log w' @ [AnimationError e],
                           stdout := stdout w' @ [AnErrorOccurred e]\<rparr>)
      | (Inr u, w') \<Rightarrow> launch E A n w')"
  by (cases "load_effect E A w")
     (auto simp add: io_try_def io_bind_def animation_log_error_def print_def split: sum.splits)

lemma launch_never_ends: "fst (launch E A n w) = None"
proof (induction n arbitrary: w)
  case 0
  show ?case by simp
next
  case (Suc n)
  obtain r w' where l: "load_effect E A w = (r, w')" by (cases "load_effect E A w")
  show ?case using l Suc.IH by (cases r) (simp_all add: launch_Suc del: launch.simps)
qed

text \<open>
  C6. When the turn-on of some light fails, the run raises that exception before any
  preset is drawn, any state is printed or any tick runs. The failure is in the
  gateway's log as a failed turn-on. The launch loop catches the exception, writes it to
  the animation log and prints it, and goes on with the next run from there; however
  many iterations are observed, the loop has not ended.
\<close>

theorem turn_on_failure_restarts_the_run:
  assumes "run_all (map (turn_on_light E (bridge A)) (lights A)) w = (rs, w1)"
    and "\<exists>r \<in> set rs. isl r"
  shows "\<exists>e. load_effect E A w = (Inl e, w1)
           \<and> (\<exists>l \<in> set (lights A). FailedTurnOn l e \<in> set (bridge_error_log w1))
           \<and> sleeps w1 = sleeps w \<and> draws w1 = draws w \<and> stdout w1 = stdout w
           \<and> launch E A (Suc n) w =
               launch E A n (w1\<lparr>error_log := error_log w1 @ [AnimationError e],
                                stdout := stdout w1 @ [AnErrorOccurred e]\<rparr>)
           \<and> fst (launch E A (Suc n) w) = None"
proof -
  let ?tasks = "map (turn_on_light E (bridge A)) (lights A)"
  obtain e where e: "first_exn rs = Some e" using first_exn_Some[OF assms(2)] by blast
  have g: "gather ?tasks w = (Inl e, w1)" using gather_raises[OF assms(1) e] .
  then have run: "load_effect E A w = (Inl e, w1)" by (simp add: load_effect_def io_bind_def)
  have logged: "\<exists>l \<in> set (lights A). FailedTurnOn l e \<in> set (bridge_error_log w1)"
    using run_all_turn_on_log[OF assms(1)] e by blast
  have p: "preserves f (gather ?tasks)"
    if "\<And>w v. f (w\<lparr>http_error_log := v\<rparr>) = f w" and "\<And>w v. f (w\<lparr>requests := v\<rparr>) = f w"
      and "\<And>w v. f (w\<lparr>bridge_error_log := v\<rparr>) = f w" for f :: "world \<Rightarrow> 'b"
    using that by (intro preserves_gather) (auto intro!: preserves_turn_on_light)
  have s: "sleeps w1 = sleeps w" by (rule preserved[OF p g]) simp_all
  have d: "draws w1 = draws w" by (rule preserved[OF p g]) simp_all
  have o: "stdout w1 = stdout w" by (rule preserved[OF p g]) simp_all
  have next_run: "launch E A (Suc n) w =
               launch E A n (w1\<lparr>error_log := error_log w1 @ [AnimationError e],
                                stdout := stdout w1 @ [AnErrorOccurred e]\<rparr>)"
    using run by (simp add: launch_Suc del: launch.simps)
  show ?thesis using run logged s d o next_run launch_never_ends[of E A "Suc n" w] by blast
qed

lemma dark_show_turn_on:
  "fst (run_all (map (turn_on_light calm_env (bridge dark_show)) (lights dark_show)) empty_world) =
     [Inr (JArray []), Inl (InvalidLightID [])]"
  by (simp add: dark_show_def hub_def calm_env_def empty_world_def turn_on_light_def get_url_def
        validate_light_id_def put_def validate_url_def validate_payload_def invalid_payload_def
        session_put_def io_bind_def io_try_def io_return_def io_raise_def startswith_def
        bridge_log_error_def)

theorem turn_on_failure_restarts_the_run_witness:
  "fst (load_effect calm_env dark_show empty_world) = Inl (InvalidLightID [])
   \<and> (\<exists>l. FailedTurnOn l (InvalidLightID [])
          \<in> set (bridge_error_log (snd (load_effect calm_env dark_show empty_world))))
   \<and> sleeps (snd (load_effect calm_env dark_show empty_world)) = []
   \<and> fst (launch calm_env dark_show (Suc 4) empty_world) = None"
proof -
  let ?tasks = "map (turn_on_light calm_env (bridge dark_show)) (lights dark_show)"
  have r: "run_all ?tasks empty_world =
             ([Inr (JArray []), Inl (InvalidLightID [])], snd (run_all ?tasks empty_world))"
    using dark_show_turn_on by (simp add: prod_eq_iff)
  have f: "\<exists>r \<in> set [Inr (JArray []), Inl (InvalidLightID [])]. isl r" by simp
  have l: "lights dark_show = [''1'', []]" by (simp add: dark_show_def)
  obtain e where e: "load_effect calm_env dark_show empty_world = (Inl e, snd (run_all ?tasks empty_world))"
    and logged: "\<exists>l \<in> set (lights dark_show). FailedTurnOn l e \<in> set (bridge_error_log (snd (run_all ?tasks empty_world)))"
    and s: "sleeps (snd (run_all ?tasks empty_world)) = sleeps empty_world"
    and n: "fst (launch calm_env dark_show (Suc 4) empty_world) = None"
    using turn_on_failure_restarts_the_run[OF r f, of 4] by blast
  have "gather ?tasks empty_world = (Inl (InvalidLightID []), snd (run_all ?tasks empty_world))"
    by (rule gather_raises[OF r]) simp
  then have e': "e = InvalidLightID []" using e by (simp add: load_effect_def io_bind_def)
  have "\<exists>l. FailedTurnOn l (InvalidLightID []) \<in> set (bridge_error_log (snd (run_all ?tasks empty_world)))"
    using logged e' by blast
  then show ?thesis using e e' s n by (simp add: empty_world_def)
qed

subsection \<open>A push that fails inside the tick loop\<close>

lemma glare_ranges:
  "has_range glare ''hue'' 65535 65536" "has_range glare ''bri'' 100 100"
  "has_range glare ''sat'' 200 200"
  by (simp_all add: has_range_def field_def glare_def)

lemma glare_tasks:
  assumes "even (draws w)"
  shows "fst (create_tasks calm_env glare_show glare (lights glare_show) w) =
           Inr [set_light_color calm_env hub ''1'' (IntNum 65535) (IntNum 100) (IntNum 200),
                set_light_color calm_env hub ''2'' (IntNum 65536) (IntNum 100) (IntNum 200)]
       \<and> error_log (snd (create_tasks calm_env glare_show glare (lights glare_show) w)) = error_log w"
proof -
  have m: "draws w mod 2 = 0" "Suc (Suc (Suc (draws w))) mod 2 = 1"
    using assms by presburger+
  have g: "generate_random_state calm_env glare v =
             (Inr \<lparr>st_hue = randint_value 65535 65536 (rnd calm_env (draws v)),
                    st_bri = randint_value 100 100 (rnd calm_env (Suc (draws v))),
                    st_sat = randint_value 200 200 (rnd calm_env (Suc (Suc (draws v))))\<rparr>,
              v\<lparr>draws := Suc (Suc (Suc (draws v)))\<rparr>)" for v
    by (rule generate_random_state_valid[OF glare_ranges(1) _ glare_ranges(2) _ glare_ranges(3)])
       simp_all
  have rc: "rnd calm_env i = i" for i
    by (simp add: calm_env_def)
  show ?thesis
    using m
    by (simp add: glare_show_def io_bind_def io_try_def io_return_def debug_request_def print_def
          g randint_value_def rc)
qed

lemma glare_push_fails:
  assumes "even (draws w)"
  obtains tasks w1 rs w2 where
    "create_tasks calm_env glare_show glare (lights glare_show) w = (Inr tasks, w1)"
    and "run_all tasks w1 = (rs, w2)" and "first_exn rs = Some (InvalidHue (IntNum 65536))"
    and "error_log w1 = error_log w"
proof -
  let ?p1 = "set_light_color calm_env hub ''1'' (IntNum 65535) (IntNum 100) (IntNum 200)"
  let ?p2 = "set_light_color calm_env hub ''2'' (IntNum 65536) (IntNum 100) (IntNum 200)"
  obtain w1 where c: "create_tasks calm_env glare_show glare (lights glare_show) w = (Inr [?p1, ?p2], w1)"
    and l: "error_log w1 = error_log w"
    using glare_tasks[OF assms]
    by (cases "create_tasks calm_env glare_show glare (lights glare_show) w") simp
  obtain j where "fst (?p1 w1) = Inr j"
    using set_light_color_answered[of calm_env "''1''" "IntNum 65535" "IntNum 100" "IntNum 200" hub w1]
    by (auto simp add: calm_env_answers in_range_def)
  then obtain wa where a: "?p1 w1 = (Inr j, wa)" by (cases "?p1 w1") simp
  have b: "?p2 wa = (Inl (InvalidHue (IntNum 65536)),
                     wa\<lparr>bridge_error_log := bridge_error_log wa @ [Raised (InvalidHue (IntNum 65536))]\<rparr>)"
    by (simp add: set_light_color_rejects in_range_def)
  have "run_all [?p1, ?p2] w1 =
          ([Inr j, Inl (InvalidHue (IntNum 65536))],
           wa\<lparr>bridge_error_log := bridge_error_log wa @ [Raised (InvalidHue (IntNum 65536))]\<rparr>)"
    using a b by simp
  then show ?thesis using c l that by simp
qed

lemma push_failure_propagates:
  assumes "create_tasks E A config (lights A) w = (Inr tasks, w1)"
    and "run_all tasks w1 = (rs, w2)" and "first_exn rs = Some e"
  shows "tick_loop E A config (Suc n) w = (Inl e, w2)
       \<and> sleeps w2 = sleeps w \<and> error_log w2 = error_log w1"
proof -
  have g: "gather tasks w1 = (Inl e, w2)" using gather_raises[OF assms(2,3)] .
  then have t: "tick E A config w = (Inl e, w2)"
    using assms(1) by (simp add: tick_def io_bind_def)
  then have l: "tick_loop E A config (Suc n) w = (Inl e, w2)" by (simp add: io_bind_def)
  have s: "sleeps w2 = sleeps w" using tick_sleeps[OF t] by simp
  have "preserves error_log t" if "t \<in> set tasks" for t
    by (rule created_tasks_preserve[OF _ _ _ assms(1) that]) simp_all
  then have "preserves error_log (gather tasks)" by (rule preserves_gather)
  then have "error_log w2 = error_log w1" using g by (rule preserved)
  then show ?thesis using l s by simp
qed

text \<open>
  The whole run of the show \<open>glare_show\<close>: both lights are turned on, the preset and the
  duration 3 are drawn, and the first tick draws the hue 65535 for light 1 and 65536 for
  light 2. The run raises the error of light 2 and has not slept once.
\<close>

lemma glare_show_run_aborts:
  "fst (load_effect calm_env glare_show empty_world) = Inl (InvalidHue (IntNum 65536))
   \<and> sleeps (snd (load_effect calm_env glare_show empty_world)) = []
   \<and> error_log (snd (load_effect calm_env glare_show empty_world)) = []"
proof -
  let ?on = "map (turn_on_light calm_env (bridge glare_show)) (lights glare_show)"
  have "\<exists>x. fst (t w') = Inr x" if "t \<in> set ?on" for t w'
    using that turn_on_light_answered[of calm_env _ "bridge glare_show" w']
    by (auto simp add: calm_env_answers glare_show_def)
  then obtain xs where "fst (gather ?on empty_world) = Inr xs"
    using gather_succeeds[of ?on empty_world] by blast
  then obtain w1 where g: "gather ?on empty_world = (Inr xs, w1)"
    by (cases "gather ?on empty_world") simp
  have p: "preserves f (gather ?on)"
    if "\<And>w v. f (w\<lparr>http_error_log := v\<rparr>) = f w" and "\<And>w v. f (w\<lparr>requests := v\<rparr>) = f w"
      and "\<And>w v. f (w\<lparr>bridge_error_log := v\<rparr>) = f w" for f :: "world \<Rightarrow> 'b"
    using that by (intro preserves_gather) (auto intro!: preserves_turn_on_light)
  have d: "draws w1 = 0" using preserved[OF p g, of draws] by (simp add: empty_world_def)
  have s: "sleeps w1 = []" using preserved[OF p g, of sleeps] by (simp add: empty_world_def)
  have l: "error_log w1 = []" using preserved[OF p g, of error_log] by (simp add: empty_world_def)
  let ?w = "w1\<lparr>draws := Suc (Suc 0)\<rparr>"
  have "even (draws ?w)" by simp
  then obtain tasks wa rs wb where
    c: "create_tasks calm_env glare_show glare (lights glare_show) ?w = (Inr tasks, wa)"
    and r: "run_all tasks wa = (rs, wb)" and f: "first_exn rs = Some (InvalidHue (IntNum 65536))"
    and la: "error_log wa = error_log ?w"
    by (rule glare_push_fails)
  have t: "tick_loop calm_env glare_show glare (Suc 2) ?w = (Inl (InvalidHue (IntNum 65536)), wb)"
    and sb: "sleeps wb = sleeps ?w" and lb: "error_log wb = error_log wa"
    using push_failure_propagates[OF c r f, of 2] by simp_all
  have run: "load_effect calm_env glare_show empty_world = (Inl (InvalidHue (IntNum 65536)), wb)"
    using g d t
    by (simp add: load_effect_def io_bind_def io_of_def py_keys_def choice_def randint_def
          randint_value_def glare_show_def numeral_3_eq_3)
  show ?thesis using run sb s lb la l by simp
qed

text \<open>
  C1, where the code departs from the claim. When a push of a tick fails, that is, when
  one of the coroutines the tick created raises while \<open>gather\<close> awaits it, the
  exception leaves the tick loop at once: the loop raises it in the world the pushes
  left, with no sleep and no further tick, and nothing is written to the animation log,
  the handler of the loop over the lights being out of reach by then.
\<close>

theorem failed_push_leaves_the_tick_loop:
  assumes "create_tasks E A config (lights A) w = (Inr tasks, w1)"
    and "run_all tasks w1 = (rs, w2)" and "first_exn rs = Some e"
  shows "tick_loop E A config (Suc n) w = (Inl e, w2)
       \<and> sleeps w2 = sleeps w \<and> error_log w2 = error_log w1"
  using push_failure_propagates[OF assms] .

theorem failed_push_leaves_the_tick_loop_witness:
  "fst (tick_loop calm_env glare_show glare 3 empty_world) = Inl (InvalidHue (IntNum 65536))
   \<and> sleeps (snd (tick_loop calm_env glare_show glare 3 empty_world)) = []
   \<and> error_log (snd (tick_loop calm_env glare_show glare 3 empty_world)) = []"
proof -
  have "even (draws empty_world)" by (simp add: empty_world_def)
  then obtain tasks w1 rs w2 where
    c: "create_tasks calm_env glare_show glare (lights glare_show) empty_world = (Inr tasks, w1)"
    and r: "run_all tasks w1 = (rs, w2)" and f: "first_exn rs = Some (InvalidHue (IntNum 65536))"
    and "error_log w1 = error_log empty_world"
    by (rule glare_push_fails)
  then show ?thesis
    using failed_push_leaves_the_tick_loop[OF c r f, of 2]
    by (simp add: empty_world_def numeral_3_eq_3)
qed

end
